theory Spec2Isabelle
  imports Main "HOL-Library.Word"
begin

section \<open>The split-kernel scheduler of Cycles (device\_split\_kernel.cpp)\<close>

text \<open>
  The embedding follows \<^verbatim>\<open>intern/cycles/device/device_split_kernel.cpp\<close>:
  the constructor, \<^verbatim>\<open>load_kernels\<close> and \<^verbatim>\<open>path_trace\<close> of
  \<^verbatim>\<open>DeviceSplitKernel\<close>. The device, the task and the kernels are
  external collaborators; they are a record of functions over a world state
  \<open>'w\<close> that every call threads through.
\<close>

subsection \<open>C integers\<close>

text \<open>
  A C \<^verbatim>\<open>int\<close> is a \<open>32 word\<close> read by \<open>sint\<close>; an
  \<^verbatim>\<open>unsigned int\<close> is a \<open>32 word\<close> read by \<open>unat\<close>. The sizing arithmetic mixes
  \<^verbatim>\<open>int\<close>, \<^verbatim>\<open>unsigned int\<close> and \<^verbatim>\<open>size_t\<close>
  (64 bits); it is written on \<open>int\<close> and \<open>nat\<close> with every conversion and
  wrap-around spelled out.
\<close>

type_synonym c_int = "32 word"
type_synonym c_uint = "32 word"

definition INT_MAX :: int where
  "INT_MAX = 2 ^ 31 - 1"

definition INT_MIN :: int where
  "INT_MIN = - (2 ^ 31)"

definition in_int_range :: "int \<Rightarrow> bool" where
  "in_int_range i = (INT_MIN \<le> i \<and> i \<le> INT_MAX)"

definition to_size_t :: "int \<Rightarrow> nat" where
  "to_size_t i = nat (i mod 2 ^ 64)"

definition to_uint :: "int \<Rightarrow> nat" where
  "to_uint i = nat (i mod 2 ^ 32)"

subsection \<open>Constants of headers that are not part of the sources\<close>

text \<open>
  \<^verbatim>\<open>PATH_ITER_INC_FACTOR\<close>, \<^verbatim>\<open>SPLIT_KERNEL_LOCAL_SIZE_X/Y\<close>,
  \<^verbatim>\<open>RAY_INACTIVE\<close>, \<^verbatim>\<open>NUM_QUEUES\<close> and the switch
  \<^verbatim>\<open>__WORK_STEALING__\<close> come from kernel headers; they are parameters.
  \<^verbatim>\<open>PATH_ITER_INC_FACTOR\<close> is held as the \<^verbatim>\<open>unsigned int\<close>
  it is converted to wherever the code uses it.
\<close>

record config =
  PATH_ITER_INC_FACTOR :: c_uint
  SPLIT_KERNEL_LOCAL_SIZE_X :: nat
  SPLIT_KERNEL_LOCAL_SIZE_Y :: nat
  RAY_INACTIVE :: int
  NUM_QUEUES :: nat
  WORK_STEALING :: bool

subsection \<open>Tiles and errors\<close>

record render_tile =
  tile_w :: c_int
  tile_h :: c_int
  num_samples :: c_int

record int2 =
  x :: c_int
  y :: c_int

datatype assertion =
  Max_x_multiple_of_local_x
| Max_y_multiple_of_local_y
| Num_parallel_samples_nonzero
| Global_size_within_max_feasible

datatype error =
  Assertion_failed assertion
| Division_by_zero
| Signed_overflow
| Null_kernel
| Out_of_bounds

subsection \<open>Dispatch sizing (path\_trace, lines 78 to 115)\<close>

text \<open>
  \<^verbatim>\<open>(((d - 1) / local_size[i]) + 1) * local_size[i]\<close> with \<^verbatim>\<open>int d\<close>
  and \<^verbatim>\<open>size_t local_size[i]\<close>: the difference is an \<^verbatim>\<open>int\<close>,
  converted to \<^verbatim>\<open>size_t\<close> for the division.
\<close>

definition round_up_local :: "int \<Rightarrow> nat \<Rightarrow> nat" where
  "round_up_local d ls = ((to_size_t (d - 1) div ls + 1) * ls) mod 2 ^ 64"

text \<open>
  Modelled from the spec: \<^verbatim>\<open>min\<close> of util\_math.h is missing from the
  sources. Section 4.2 has the concurrent sample count floored to the requested
  sample count, so it is the smaller of its two arguments. It is called with an
  \<^verbatim>\<open>unsigned int\<close> and an \<^verbatim>\<open>int\<close> and compares them as
  \<^verbatim>\<open>int\<close>: the unsigned quotient is converted to \<^verbatim>\<open>int\<close>
  first, \<open>2 ^ 31\<close> and more becoming negative.
\<close>

definition ccl_min :: "int \<Rightarrow> int \<Rightarrow> int" where
  "ccl_min a b = (if a < b then a else b)"

definition to_int :: "nat \<Rightarrow> int" where
  "to_int n = (int n + 2 ^ 31) mod 2 ^ 32 - 2 ^ 31"

text \<open>
  Lines 96 and 100: \<^verbatim>\<open>num_tile_columns_possible / d_w\<close>, an
  \<^verbatim>\<open>unsigned int\<close>; the first quotient is taken in \<^verbatim>\<open>size_t\<close> and
  cut to 32 bits, \<^verbatim>\<open>d_w\<close> is converted to \<^verbatim>\<open>unsigned int\<close>.
\<close>

definition columns_per_sample :: "nat \<Rightarrow> nat \<Rightarrow> int \<Rightarrow> nat" where
  "columns_per_sample num_threads global_size_1 d_w =
     (let num_tile_columns_possible = (num_threads div global_size_1) mod 2 ^ 32
      in num_tile_columns_possible div to_uint d_w)"

text \<open>
  The parallel sample count of the fixed-allocation strategy before the
  wavefront rounding: \<^verbatim>\<open>min(num_tile_columns_possible / d_w, rtile.num_samples)\<close>,
  stored in an \<^verbatim>\<open>unsigned int\<close>.
\<close>

definition raw_parallel_samples :: "nat \<Rightarrow> nat \<Rightarrow> int \<Rightarrow> int \<Rightarrow> nat" where
  "raw_parallel_samples num_threads global_size_1 d_w n_samples =
     to_uint (ccl_min (to_int (columns_per_sample num_threads global_size_1 d_w)) n_samples)"

definition round_to_wavefront :: "nat \<Rightarrow> nat" where
  "round_to_wavefront n = (if n \<ge> 64 then (n div 64) * 64 else n)"

text \<open>
  Lines 93 to 101 as functions of the tile and of the maximum feasible tile
  size: the quotient lane budget / rounded tile height / tile width, and the
  parallel sample count of the fixed-allocation strategy before the wavefront
  rounding; lines 105 to 108 round it.
\<close>

definition lane_quotient :: "config \<Rightarrow> render_tile \<Rightarrow> int2 \<Rightarrow> nat" where
  "lane_quotient cfg rtile max_size =
     (let global_size_1 = round_up_local (sint (tile_h rtile)) (SPLIT_KERNEL_LOCAL_SIZE_Y cfg);
          num_threads = to_uint (sint (x max_size) * sint (y max_size))
      in columns_per_sample num_threads global_size_1 (sint (tile_w rtile)))"

definition raw_samples :: "config \<Rightarrow> render_tile \<Rightarrow> int2 \<Rightarrow> nat" where
  "raw_samples cfg rtile max_size =
     (let global_size_1 = round_up_local (sint (tile_h rtile)) (SPLIT_KERNEL_LOCAL_SIZE_Y cfg);
          num_threads = to_uint (sint (x max_size) * sint (y max_size))
      in raw_parallel_samples num_threads global_size_1 (sint (tile_w rtile))
           (sint (num_samples rtile)))"

definition fixed_allocation_samples :: "config \<Rightarrow> render_tile \<Rightarrow> int2 \<Rightarrow> nat" where
  "fixed_allocation_samples cfg rtile max_size =
     round_to_wavefront (raw_samples cfg rtile max_size)"

record work_size =
  global_size_0 :: nat
  global_size_1 :: nat
  num_parallel_samples :: nat

text \<open>
  The sizing block of \<^verbatim>\<open>path_trace\<close> with its four assertions. A signed
  overflow and a division by zero are undefined in C; the model stops with an
  error there instead of choosing a value.
\<close>

definition compute_work_size ::
  "config \<Rightarrow> render_tile \<Rightarrow> int2 \<Rightarrow> error + work_size" where
  "compute_work_size cfg rtile max_size =
    (let mx = sint (x max_size); my = sint (y max_size);
         lx = SPLIT_KERNEL_LOCAL_SIZE_X cfg; ly = SPLIT_KERNEL_LOCAL_SIZE_Y cfg;
         d_w = sint (tile_w rtile); d_h = sint (tile_h rtile)
     in if lx = 0 \<or> ly = 0 then Inl Division_by_zero
        else if mx mod int lx \<noteq> 0 then Inl (Assertion_failed Max_x_multiple_of_local_x)
        else if my mod int ly \<noteq> 0 then Inl (Assertion_failed Max_y_multiple_of_local_y)
        else if \<not> in_int_range (d_w - 1) \<or> \<not> in_int_range (d_h - 1) then Inl Signed_overflow
        else if \<not> in_int_range (mx * my) then Inl Signed_overflow
        else if WORK_STEALING cfg then
          (let gs0 = round_up_local d_w lx; gs1 = round_up_local d_h ly
           in if (gs0 * gs1) mod 2 ^ 64 \<le> to_size_t (mx * my)
              then Inr \<lparr>global_size_0 = gs0, global_size_1 = gs1, num_parallel_samples = 1\<rparr>
              else Inl (Assertion_failed Global_size_within_max_feasible))
        else
          (let gs1 = round_up_local d_h ly
           in if gs1 = 0 \<or> to_uint d_w = 0 then Inl Division_by_zero
              else
                (let nps = fixed_allocation_samples cfg rtile max_size
                 in if nps = 0 then Inl (Assertion_failed Num_parallel_samples_nonzero)
                    else
                      (let gs0 = (to_uint d_w * nps) mod 2 ^ 32
                       in if (gs0 * gs1) mod 2 ^ 64 \<le> to_size_t (mx * my)
                          then Inr \<lparr>global_size_0 = gs0, global_size_1 = gs1,
                                    num_parallel_samples = nps\<rparr>
                          else Inl (Assertion_failed Global_size_within_max_feasible)))))"

text \<open>
  The preconditions of the sizing block: positive local sizes that divide the
  maximum feasible tile size, a tile of positive width and height that fits in
  the maximum feasible tile size, at least one requested sample, and a lane
  budget that an \<^verbatim>\<open>int\<close> holds.
\<close>

definition sizing_preconditions :: "config \<Rightarrow> render_tile \<Rightarrow> int2 \<Rightarrow> bool" where
  "sizing_preconditions cfg rtile max_size =
     (0 < SPLIT_KERNEL_LOCAL_SIZE_X cfg \<and> 0 < SPLIT_KERNEL_LOCAL_SIZE_Y cfg \<and>
      sint (x max_size) mod int (SPLIT_KERNEL_LOCAL_SIZE_X cfg) = 0 \<and>
      sint (y max_size) mod int (SPLIT_KERNEL_LOCAL_SIZE_Y cfg) = 0 \<and>
      0 < sint (tile_w rtile) \<and> sint (tile_w rtile) \<le> sint (x max_size) \<and>
      0 < sint (tile_h rtile) \<and> sint (tile_h rtile) \<le> sint (y max_size) \<and>
      1 \<le> sint (num_samples rtile) \<and>
      in_int_range (sint (x max_size) * sint (y max_size)))"

subsection \<open>The scheduler, the device and the task\<close>

text \<open>
  The ten split kernels that \<^verbatim>\<open>load_kernels\<close> resolves, in the order
  of its \<^verbatim>\<open>LOAD_KERNEL\<close> lines, and the six buffers the scheduler owns.
\<close>

datatype stage =
  Scene_intersect
| Lamp_emission
| Queue_enqueue
| Background_buffer_update
| Shader_eval
| Holdout_emission_blurring_pathtermination_ao
| Direct_lighting
| Shadow_blocked
| Next_iteration_setup
| Sum_all_radiance

datatype buffer = Work_pool_wgs | Queue_index | Use_queues_flag | Kgbuffer | Ray_state | Split_data

record kernel_dimensions =
  global_size :: "nat \<times> nat"
  local_size :: "nat \<times> nat"

definition KernelDimensions :: "nat \<times> nat \<Rightarrow> nat \<times> nat \<Rightarrow> kernel_dimensions" where
  "KernelDimensions gs ls = \<lparr>global_size = gs, local_size = ls\<rparr>"

record requested_features =
  max_closure :: c_int

text \<open>
  Every call the scheduler makes on a collaborator is logged, with its result
  where it has one, in the order the calls are made.
\<close>

datatype event =
  Mem_alloc buffer nat
| Mem_free buffer
| Enqueue_data_init kernel_dimensions int nat bool
| Enqueue stage kernel_dimensions bool
| Get_cancel bool
| Mem_copy_from buffer nat

text \<open>
  The collaborators: \<^verbatim>\<open>Device\<close>, the \<^verbatim>\<open>SplitKernelFunction\<close>
  objects it hands out (type \<open>'k\<close>) and \<^verbatim>\<open>DeviceTask::get_cancel\<close>.
  \<^verbatim>\<open>mem_copy_from\<close> yields the bytes the device holds for
  \<^verbatim>\<open>ray_state\<close>, by offset. \<^verbatim>\<open>split_data_buffer_size\<close> of
  kernel\_split\_data.h is not part of the sources and is a parameter too.
\<close>

record ('w, 'k) device =
  get_split_kernel_function :: "stage \<Rightarrow> requested_features \<Rightarrow> 'k option"
  mem_alloc :: "buffer \<Rightarrow> nat \<Rightarrow> 'w \<Rightarrow> 'w"
  mem_free :: "buffer \<Rightarrow> 'w \<Rightarrow> 'w"
  sizeof_KernelGlobals :: nat
  split_data_buffer_size :: "int \<Rightarrow> int \<Rightarrow> nat \<Rightarrow> nat"
  enqueue_split_kernel_data_init ::
    "kernel_dimensions \<Rightarrow> render_tile \<Rightarrow> int \<Rightarrow> nat \<Rightarrow> 'w \<Rightarrow> bool \<times> 'w"
  enqueue :: "'k \<Rightarrow> kernel_dimensions \<Rightarrow> 'w \<Rightarrow> bool \<times> 'w"
  mem_copy_from :: "nat \<Rightarrow> 'w \<Rightarrow> (nat \<Rightarrow> 8 word) \<times> 'w"
  get_cancel :: "'w \<Rightarrow> bool \<times> 'w"

text \<open>
  The members of \<^verbatim>\<open>DeviceSplitKernel\<close> that the three functions read or
  write, the host copy of \<^verbatim>\<open>ray_state\<close>, the world of the collaborators
  and the log of the calls made so far.
\<close>

record ('w, 'k) state =
  kernels :: "stage \<Rightarrow> 'k option"
  path_iteration_times :: c_uint
  current_max_closure :: c_int
  first_tile :: bool
  ray_state :: "8 word list"
  world :: 'w
  trace :: "event list"

text \<open>
  The constructor (lines 24 to 29). It leaves the kernel pointers unset; they
  are null here, and \<^verbatim>\<open>path_trace\<close> on a null kernel is an error.
\<close>

definition DeviceSplitKernel :: "config \<Rightarrow> 'w \<Rightarrow> ('w, 'k) state" where
  "DeviceSplitKernel cfg w =
     \<lparr>kernels = (\<lambda>_. None),
      path_iteration_times = PATH_ITER_INC_FACTOR cfg,
      current_max_closure = - 1,
      first_tile = True,
      ray_state = [],
      world = w,
      trace = []\<rparr>"

definition free_buffer :: "('w, 'k) device \<Rightarrow> buffer \<Rightarrow> ('w, 'k) state \<Rightarrow> ('w, 'k) state" where
  "free_buffer dev b s =
     s\<lparr>world := mem_free dev b (world s), trace := trace s @ [Mem_free b]\<rparr>"

text \<open>The destructor (lines 31 to 39).\<close>

definition destroy :: "('w, 'k) device \<Rightarrow> ('w, 'k) state \<Rightarrow> ('w, 'k) state" where
  "destroy dev s =
     free_buffer dev Work_pool_wgs
       (free_buffer dev Queue_index
         (free_buffer dev Use_queues_flag
           (free_buffer dev Ray_state
             (free_buffer dev Split_data
               (free_buffer dev Kgbuffer s)))))"

subsection \<open>load\_kernels (lines 41 to 65)\<close>

definition split_kernel_names :: "stage list" where
  "split_kernel_names =
     [Scene_intersect, Lamp_emission, Queue_enqueue, Background_buffer_update, Shader_eval,
      Holdout_emission_blurring_pathtermination_ao, Direct_lighting, Shadow_blocked,
      Next_iteration_setup, Sum_all_radiance]"

text \<open>
  One \<^verbatim>\<open>LOAD_KERNEL(name)\<close> per list element: the member is assigned
  first, then tested, and a null result returns false at once.
\<close>

fun load_kernel_list ::
  "('w, 'k) device \<Rightarrow> requested_features \<Rightarrow> stage list \<Rightarrow> ('w, 'k) state
     \<Rightarrow> bool \<times> ('w, 'k) state" where
  "load_kernel_list dev requested [] s = (True, s)"
| "load_kernel_list dev requested (name # names) s =
     (let s' = s\<lparr>kernels := (kernels s)(name := get_split_kernel_function dev name requested)\<rparr>
      in if kernels s' name = None then (False, s')
         else load_kernel_list dev requested names s')"

definition load_kernels ::
  "('w, 'k) device \<Rightarrow> requested_features \<Rightarrow> ('w, 'k) state \<Rightarrow> bool \<times> ('w, 'k) state" where
  "load_kernels dev requested s =
     (case load_kernel_list dev requested split_kernel_names s of
        (False, s') \<Rightarrow> (False, s')
      | (True, s') \<Rightarrow> (True, s'\<lparr>current_max_closure := max_closure requested\<rparr>))"

subsection \<open>path\_trace (lines 67 to 270)\<close>

text \<open>
  The locals of \<^verbatim>\<open>path_trace\<close> that its loops update.
\<close>

record locals =
  canceled :: bool
  numHostIntervention :: c_uint
  numNextPathIterTimes :: c_uint

text \<open>
  \<^verbatim>\<open>ENQUEUE_SPLIT_KERNEL(name, global_size, local_size)\<close>: the enqueue of
  one kernel. The result is the value of the enqueue; false makes
  \<^verbatim>\<open>path_trace\<close> return false.
\<close>

definition ENQUEUE_SPLIT_KERNEL ::
  "('w, 'k) device \<Rightarrow> stage \<Rightarrow> kernel_dimensions \<Rightarrow> ('w, 'k) state
     \<Rightarrow> error + bool \<times> ('w, 'k) state" where
  "ENQUEUE_SPLIT_KERNEL dev name dims s =
     (case kernels s name of
        None \<Rightarrow> Inl Null_kernel
      | Some k \<Rightarrow>
          (let (ok, w) = enqueue dev k dims (world s)
           in Inr (ok, s\<lparr>world := w, trace := trace s @ [Enqueue name dims ok]\<rparr>)))"

text \<open>
  A sequence of \<^verbatim>\<open>ENQUEUE_SPLIT_KERNEL\<close> lines; the first enqueue that
  returns false ends it.
\<close>

fun enqueue_kernels ::
  "('w, 'k) device \<Rightarrow> (stage \<times> kernel_dimensions) list \<Rightarrow> ('w, 'k) state
     \<Rightarrow> error + bool \<times> ('w, 'k) state" where
  "enqueue_kernels dev [] s = Inr (True, s)"
| "enqueue_kernels dev ((name, dims) # rest) s =
     (case ENQUEUE_SPLIT_KERNEL dev name dims s of
        Inl e \<Rightarrow> Inl e
      | Inr (ok, s') \<Rightarrow> if ok then enqueue_kernels dev rest s' else Inr (False, s'))"

text \<open>
  The nine enqueues of one path iteration (lines 181 to 194);
  \<^verbatim>\<open>global_size_shadow_blocked[0]\<close> is \<^verbatim>\<open>global_size[0] * 2\<close>.
\<close>

definition path_iteration_kernels ::
  "nat \<times> nat \<Rightarrow> nat \<times> nat \<Rightarrow> (stage \<times> kernel_dimensions) list" where
  "path_iteration_kernels gs ls =
     (let global_size_shadow_blocked = ((fst gs * 2) mod 2 ^ 64, snd gs)
      in [(Scene_intersect, KernelDimensions gs ls),
          (Lamp_emission, KernelDimensions gs ls),
          (Queue_enqueue, KernelDimensions gs ls),
          (Background_buffer_update, KernelDimensions gs ls),
          (Shader_eval, KernelDimensions gs ls),
          (Holdout_emission_blurring_pathtermination_ao, KernelDimensions gs ls),
          (Direct_lighting, KernelDimensions gs ls),
          (Shadow_blocked, KernelDimensions global_size_shadow_blocked ls),
          (Next_iteration_setup, KernelDimensions gs ls)])"

definition poll_cancel :: "('w, 'k) device \<Rightarrow> ('w, 'k) state \<Rightarrow> bool \<times> ('w, 'k) state" where
  "poll_cancel dev s =
     (let (c, w) = get_cancel dev (world s)
      in (c, s\<lparr>world := w, trace := trace s @ [Get_cancel c]\<rparr>))"

text \<open>
  The \<^verbatim>\<open>for\<close> loop of lines 185 to 200, by the number of iterations left.
  The first component of the result is false when an enqueue returned false.
\<close>

fun path_iterations ::
  "('w, 'k) device \<Rightarrow> (stage \<times> kernel_dimensions) list \<Rightarrow> nat \<Rightarrow> locals \<Rightarrow> ('w, 'k) state
     \<Rightarrow> error + bool \<times> locals \<times> ('w, 'k) state" where
  "path_iterations dev ks 0 l s = Inr (True, l, s)"
| "path_iterations dev ks (Suc n) l s =
     (case enqueue_kernels dev ks s of
        Inl e \<Rightarrow> Inl e
      | Inr (ok, s1) \<Rightarrow>
          if \<not> ok then Inr (False, l, s1)
          else
            (let (c, s2) = poll_cancel dev s1
             in if c then Inr (True, l\<lparr>canceled := True\<rparr>, s2)
                else path_iterations dev ks n l s2))"

text \<open>
  Lines 203 to 216: the read-back of \<^verbatim>\<open>ray_state\<close> into the host
  array and the scan of its first \<^verbatim>\<open>global_size[0] * global_size[1]\<close>
  bytes.
\<close>

definition copy_ray_state ::
  "('w, 'k) device \<Rightarrow> nat \<Rightarrow> ('w, 'k) state \<Rightarrow> ('w, 'k) state" where
  "copy_ray_state dev n s =
     (let (bytes, w) = mem_copy_from dev n (world s)
      in s\<lparr>ray_state := map bytes [0..<n] @ drop n (ray_state s),
            world := w,
            trace := trace s @ [Mem_copy_from Ray_state n]\<rparr>)"

definition active_rays_available :: "config \<Rightarrow> nat \<Rightarrow> 8 word list \<Rightarrow> bool" where
  "active_rays_available cfg n rs = list_ex (\<lambda>b. sint b \<noteq> RAY_INACTIVE cfg) (take n rs)"

text \<open>
  One pass of the body of \<^verbatim>\<open>while(activeRaysAvailable)\<close> (lines 178 to
  230) ends in one of three ways: an enqueue returned false and
  \<^verbatim>\<open>path_trace\<close> returns false; the loop is left, by the
  \<^verbatim>\<open>break\<close> of line 229 or because no active ray is left; or the loop
  goes round again.
\<close>

datatype control = Return_false | Leave_loop | Next_pass

definition path_iteration_pass ::
  "config \<Rightarrow> ('w, 'k) device \<Rightarrow> nat \<times> nat \<Rightarrow> nat \<times> nat \<Rightarrow> locals \<Rightarrow> ('w, 'k) state
     \<Rightarrow> error + control \<times> locals \<times> ('w, 'k) state" where
  "path_iteration_pass cfg dev gs ls l s =
     (case path_iterations dev (path_iteration_kernels gs ls) (unat (path_iteration_times s)) l s of
        Inl e \<Rightarrow> Inl e
      | Inr (ok, l1, s1) \<Rightarrow>
          if \<not> ok then Inr (Return_false, l1, s1)
          else
            (let n = (fst gs * snd gs) mod 2 ^ 64
             in if length (ray_state s1) < n then Inl Out_of_bounds
                else
                  (let s2 = copy_ray_state dev n s1;
                       activeRaysAvailable = active_rays_available cfg n (ray_state s2);
                       l2 = (if activeRaysAvailable
                             then l1\<lparr>numHostIntervention := numHostIntervention l1 + 1,
                                    numNextPathIterTimes :=
                                      numNextPathIterTimes l1 + PATH_ITER_INC_FACTOR cfg\<rparr>
                             else l1);
                       s3 = (if activeRaysAvailable
                             then s2\<lparr>path_iteration_times := PATH_ITER_INC_FACTOR cfg\<rparr>
                             else s2);
                       (c, s4) = poll_cancel dev s3
                   in if c then Inr (Leave_loop, l2\<lparr>canceled := True\<rparr>, s4)
                      else if activeRaysAvailable then Inr (Next_pass, l2, s4)
                      else Inr (Leave_loop, l2, s4))))"

text \<open>
  The \<^verbatim>\<open>while\<close> loop. It has no bound: where it does not return, the
  result is \<open>None\<close>.
\<close>

partial_function (option) path_iteration_loop ::
  "config \<Rightarrow> ('w, 'k) device \<Rightarrow> nat \<times> nat \<Rightarrow> nat \<times> nat \<Rightarrow> locals \<Rightarrow> ('w, 'k) state
     \<Rightarrow> (error + bool \<times> locals \<times> ('w, 'k) state) option" where
  "path_iteration_loop cfg dev gs ls l s =
     (case path_iteration_pass cfg dev gs ls l s of
        Inl e \<Rightarrow> Some (Inl e)
      | Inr (Return_false, l', s') \<Rightarrow> Some (Inr (False, l', s'))
      | Inr (Leave_loop, l', s') \<Rightarrow> Some (Inr (True, l', s'))
      | Inr (Next_pass, l', s') \<Rightarrow> path_iteration_loop cfg dev gs ls l' s')"

text \<open>
  The locals and the state at the start of the pass that follows \<open>n\<close> passes
  that went round again.
\<close>

fun after_passes ::
  "config \<Rightarrow> ('w, 'k) device \<Rightarrow> nat \<times> nat \<Rightarrow> nat \<times> nat \<Rightarrow> nat \<Rightarrow> locals \<Rightarrow> ('w, 'k) state
     \<Rightarrow> (locals \<times> ('w, 'k) state) option" where
  "after_passes cfg dev gs ls 0 l s = Some (l, s)"
| "after_passes cfg dev gs ls (Suc n) l s =
     (case path_iteration_pass cfg dev gs ls l s of
        Inr (Next_pass, l', s') \<Rightarrow> after_passes cfg dev gs ls n l' s'
      | _ \<Rightarrow> None)"

definition alloc_buffer ::
  "('w, 'k) device \<Rightarrow> buffer \<Rightarrow> nat \<Rightarrow> ('w, 'k) state \<Rightarrow> ('w, 'k) state" where
  "alloc_buffer dev b n s =
     s\<lparr>world := mem_alloc dev b n (world s), trace := trace s @ [Mem_alloc b n]\<rparr>"

text \<open>
  \<^verbatim>\<open>ray_state.resize(n)\<close> on the host array: a longer array is cut, a
  shorter one is filled up with zero bytes.
\<close>

definition resize :: "nat \<Rightarrow> 8 word list \<Rightarrow> 8 word list" where
  "resize n rs = take n rs @ replicate (n - length rs) 0"

text \<open>
  The body of \<^verbatim>\<open>if(first_tile)\<close> (lines 121 to 148). The sizes are
  \<^verbatim>\<open>size_t\<close> values; \<^verbatim>\<open>sizeof(unsigned int)\<close> and
  \<^verbatim>\<open>sizeof(int)\<close> are 4, \<^verbatim>\<open>sizeof(char)\<close> is 1.
\<close>

definition allocate_global_memory ::
  "config \<Rightarrow> ('w, 'k) device \<Rightarrow> int2 \<Rightarrow> nat \<Rightarrow> ('w, 'k) state \<Rightarrow> ('w, 'k) state" where
  "allocate_global_memory cfg dev max_size per_thread_output_buffer_size s =
     (let lx = SPLIT_KERNEL_LOCAL_SIZE_X cfg; ly = SPLIT_KERNEL_LOCAL_SIZE_Y cfg;
          num_global_elements = sint (x max_size) * sint (y max_size);
          s1 = (if WORK_STEALING cfg
                then
                  (let tile_x = to_size_t (sint (x max_size));
                       tile_y = to_size_t (sint (y max_size));
                       max_global_size_0 = round_up_local (int tile_x) lx;
                       max_global_size_1 = round_up_local (int tile_y) ly;
                       max_work_groups =
                         (((max_global_size_0 * max_global_size_1) mod 2 ^ 64) div
                            ((lx * ly) mod 2 ^ 64)) mod 2 ^ 32
                   in alloc_buffer dev Work_pool_wgs ((max_work_groups * 4) mod 2 ^ 64) s)
                else s);
          s2 = alloc_buffer dev Queue_index ((NUM_QUEUES cfg * 4) mod 2 ^ 64) s1;
          s3 = alloc_buffer dev Use_queues_flag 1 s2;
          s4 = alloc_buffer dev Kgbuffer (sizeof_KernelGlobals dev) s3;
          s5 = s4\<lparr>ray_state := resize (to_size_t num_global_elements) (ray_state s4)\<rparr>;
          s6 = alloc_buffer dev Ray_state (length (ray_state s5)) s5
      in alloc_buffer dev Split_data
           (split_data_buffer_size dev num_global_elements (sint (current_max_closure s6))
              per_thread_output_buffer_size) s6)"

definition data_init ::
  "('w, 'k) device \<Rightarrow> kernel_dimensions \<Rightarrow> render_tile \<Rightarrow> int \<Rightarrow> nat \<Rightarrow> ('w, 'k) state
     \<Rightarrow> bool \<times> ('w, 'k) state" where
  "data_init dev dims rtile num_global_elements nps s =
     (let (ok, w) = enqueue_split_kernel_data_init dev dims rtile num_global_elements nps (world s)
      in (ok, s\<lparr>world := w,
                trace := trace s @ [Enqueue_data_init dims num_global_elements nps ok]\<rparr>))"

text \<open>
  Lines 236 to 249: the reduction kernel, on its own 16 by 16 grid, unless the
  tile was canceled.
\<close>

definition sum_all_radiance ::
  "('w, 'k) device \<Rightarrow> render_tile \<Rightarrow> locals \<Rightarrow> ('w, 'k) state
     \<Rightarrow> error + bool \<times> ('w, 'k) state" where
  "sum_all_radiance dev rtile l s =
     (if \<not> canceled l
      then
        (let sum_all_radiance_local_size = (16, 16);
             sum_all_radiance_global_size =
               (round_up_local (sint (tile_w rtile)) 16, round_up_local (sint (tile_h rtile)) 16)
         in ENQUEUE_SPLIT_KERNEL dev Sum_all_radiance
              (KernelDimensions sum_all_radiance_global_size sum_all_radiance_local_size) s)
      else Inr (True, s))"

text \<open>
  Lines 253 to 267: the budget of the next tile. The difference is an
  \<^verbatim>\<open>unsigned int\<close>, so \<^verbatim>\<open><= 0\<close> compares unsigned.
\<close>

definition next_path_iteration_times :: "config \<Rightarrow> locals \<Rightarrow> c_uint" where
  "next_path_iteration_times cfg l =
     (if numHostIntervention l = 0
      then
        (if numNextPathIterTimes l - PATH_ITER_INC_FACTOR cfg \<le> 0
         then PATH_ITER_INC_FACTOR cfg
         else numNextPathIterTimes l - PATH_ITER_INC_FACTOR cfg)
      else numNextPathIterTimes l)"

definition finish_tile :: "config \<Rightarrow> locals \<Rightarrow> ('w, 'k) state \<Rightarrow> ('w, 'k) state" where
  "finish_tile cfg l s =
     s\<lparr>path_iteration_times := next_path_iteration_times cfg l, first_tile := False\<rparr>"

text \<open>
  \<^verbatim>\<open>path_trace\<close>. \<open>None\<close>: the loop never returns. \<open>Inl\<close>: an
  assertion fails or the behaviour is undefined. \<open>Inr (r, l, s)\<close>: the call
  returns \<open>r\<close> with the locals \<open>l\<close> and leaves the scheduler in \<open>s\<close>.
\<close>

definition path_trace ::
  "config \<Rightarrow> ('w, 'k) device \<Rightarrow> render_tile \<Rightarrow> int2 \<Rightarrow> nat \<Rightarrow> ('w, 'k) state
     \<Rightarrow> (error + bool \<times> locals \<times> ('w, 'k) state) option" where
  "path_trace cfg dev rtile max_size per_thread_output_buffer_size s =
     (case compute_work_size cfg rtile max_size of
        Inl e \<Rightarrow> Some (Inl e)
      | Inr ws \<Rightarrow>
          (let gs = (global_size_0 ws, global_size_1 ws);
               ls = (SPLIT_KERNEL_LOCAL_SIZE_X cfg, SPLIT_KERNEL_LOCAL_SIZE_Y cfg);
               num_global_elements = sint (x max_size) * sint (y max_size);
               s1 = (if first_tile s
                     then allocate_global_memory cfg dev max_size per_thread_output_buffer_size s
                     else s);
               (ok, s2) = data_init dev (KernelDimensions gs ls) rtile num_global_elements
                            (num_parallel_samples ws) s1;
               l0 = \<lparr>canceled = False, numHostIntervention = 0,
                     numNextPathIterTimes = path_iteration_times s2\<rparr>
           in if \<not> ok then Some (Inr (False, l0, s2))
              else
                (case path_iteration_loop cfg dev gs ls l0 s2 of
                   None \<Rightarrow> None
                 | Some (Inl e) \<Rightarrow> Some (Inl e)
                 | Some (Inr (ok, l, s3)) \<Rightarrow>
                     if \<not> ok then Some (Inr (False, l, s3))
                     else
                       (case sum_all_radiance dev rtile l s3 of
                          Inl e \<Rightarrow> Some (Inl e)
                        | Inr (ok, s4) \<Rightarrow>
                            if \<not> ok then Some (Inr (False, l, s4))
                            else Some (Inr (True, l, finish_tile cfg l s4))))))"

subsection \<open>Concrete inputs\<close>

text \<open>
  Two configurations with an increment of 8, a local size of 64 by 1 and
  \<^verbatim>\<open>RAY_INACTIVE = 1\<close>, one for each sizing strategy; and a scripted device
  whose answers are fixed in advance: the kernels it has, the result of the
  data-init dispatch, the result of each enqueue by its number, the number of
  read-backs that still find an active lane, and the answer of each cancel
  poll by its number.
\<close>

definition fixed_allocation_config :: config where
  "fixed_allocation_config =
     \<lparr>PATH_ITER_INC_FACTOR = 8, SPLIT_KERNEL_LOCAL_SIZE_X = 64, SPLIT_KERNEL_LOCAL_SIZE_Y = 1,
      RAY_INACTIVE = 1, NUM_QUEUES = 4, WORK_STEALING = False\<rparr>"

definition work_stealing_config :: config where
  "work_stealing_config =
     \<lparr>PATH_ITER_INC_FACTOR = 8, SPLIT_KERNEL_LOCAL_SIZE_X = 64, SPLIT_KERNEL_LOCAL_SIZE_Y = 1,
      RAY_INACTIVE = 1, NUM_QUEUES = 4, WORK_STEALING = True\<rparr>"

record script =
  available :: "stage \<Rightarrow> bool"
  init_ok :: bool
  enqueue_ok :: "nat \<Rightarrow> bool"
  active_syncs :: nat
  cancel_at :: "nat \<Rightarrow> bool"

record counters =
  enqueues :: nat
  syncs :: nat
  polls :: nat

definition scripted_device :: "script \<Rightarrow> (counters, stage) device" where
  "scripted_device sc =
     \<lparr>get_split_kernel_function = (\<lambda>name requested. if available sc name then Some name else None),
      mem_alloc = (\<lambda>b n w. w),
      mem_free = (\<lambda>b w. w),
      sizeof_KernelGlobals = 1024,
      split_data_buffer_size = (\<lambda>n c p. nat n * p),
      enqueue_split_kernel_data_init = (\<lambda>dims rtile n nps w. (init_ok sc, w)),
      enqueue = (\<lambda>k dims w. (enqueue_ok sc (enqueues w), w\<lparr>enqueues := Suc (enqueues w)\<rparr>)),
      mem_copy_from =
        (\<lambda>n w. ((\<lambda>i. if syncs w < active_syncs sc then 0 else 1), w\<lparr>syncs := Suc (syncs w)\<rparr>)),
      get_cancel = (\<lambda>w. (cancel_at sc (polls w), w\<lparr>polls := Suc (polls w)\<rparr>))\<rparr>"

definition no_calls :: counters where
  "no_calls = \<lparr>enqueues = 0, syncs = 0, polls = 0\<rparr>"

text \<open>
  Scripts: a device whose lanes are all inactive at the first read-back, and
  the same device without the shadow-blocked kernel.
\<close>

definition ideal_script :: script where
  "ideal_script =
     \<lparr>available = (\<lambda>name. True), init_ok = True, enqueue_ok = (\<lambda>i. True),
      active_syncs = 0, cancel_at = (\<lambda>i. False)\<rparr>"

definition no_shadow_blocked_script :: script where
  "no_shadow_blocked_script = ideal_script\<lparr>available := (\<lambda>name. name \<noteq> Shadow_blocked)\<rparr>"

subsection \<open>Observations on the log\<close>

text \<open>
  The events of one complete path iteration, of one that stops at its
  \<open>j\<close>-th enqueue because that enqueue returns false, and of a batch of
  complete path iterations with the answer of the cancel poll after each.
\<close>

definition round_events :: "(stage \<times> kernel_dimensions) list \<Rightarrow> event list" where
  "round_events ks = map (\<lambda>(name, dims). Enqueue name dims True) ks"

definition failed_round_events :: "(stage \<times> kernel_dimensions) list \<Rightarrow> nat \<Rightarrow> event list" where
  "failed_round_events ks j =
     round_events (take j ks) @ [Enqueue (fst (ks ! j)) (snd (ks ! j)) False]"

definition batch_events :: "(stage \<times> kernel_dimensions) list \<Rightarrow> bool list \<Rightarrow> event list" where
  "batch_events ks cs = concat (map (\<lambda>c. round_events ks @ [Get_cancel c]) cs)"

text \<open>
  The events of a pass of the \<^verbatim>\<open>while\<close> loop that does not fail: a
  batch with its poll answers, the read-back of \<open>n\<close> bytes and the answer of
  the poll of line 227; and the events of a sequence of such passes. In a
  batch no poll but the last answers true.
\<close>

definition pass_events ::
  "(stage \<times> kernel_dimensions) list \<Rightarrow> nat \<Rightarrow> bool list \<times> bool \<Rightarrow> event list" where
  "pass_events ks n p = batch_events ks (fst p) @ [Mem_copy_from Ray_state n, Get_cancel (snd p)]"

definition passes_events ::
  "(stage \<times> kernel_dimensions) list \<Rightarrow> nat \<Rightarrow> (bool list \<times> bool) list \<Rightarrow> event list" where
  "passes_events ks n ps = concat (map (pass_events ks n) ps)"

definition batch_ends_at_cancel :: "bool list \<Rightarrow> bool" where
  "batch_ends_at_cancel cs = list_all Not (butlast cs)"

fun failed_dispatch :: "event \<Rightarrow> bool" where
  "failed_dispatch (Enqueue_data_init dims n nps ok) = (\<not> ok)"
| "failed_dispatch (Enqueue name dims ok) = (\<not> ok)"
| "failed_dispatch (Mem_alloc b n) = False"
| "failed_dispatch (Mem_free b) = False"
| "failed_dispatch (Get_cancel c) = False"
| "failed_dispatch (Mem_copy_from b n) = False"

fun is_alloc :: "event \<Rightarrow> bool" where
  "is_alloc (Mem_alloc b n) = True"
| "is_alloc (Mem_free b) = False"
| "is_alloc (Enqueue_data_init dims n nps ok) = False"
| "is_alloc (Enqueue name dims ok) = False"
| "is_alloc (Get_cancel c) = False"
| "is_alloc (Mem_copy_from b n) = False"

fun is_free :: "event \<Rightarrow> bool" where
  "is_free (Mem_free b) = True"
| "is_free (Mem_alloc b n) = False"
| "is_free (Enqueue_data_init dims n nps ok) = False"
| "is_free (Enqueue name dims ok) = False"
| "is_free (Get_cancel c) = False"
| "is_free (Mem_copy_from b n) = False"

fun is_reduction :: "event \<Rightarrow> bool" where
  "is_reduction (Enqueue name dims ok) = (name = Sum_all_radiance)"
| "is_reduction (Mem_alloc b n) = False"
| "is_reduction (Mem_free b) = False"
| "is_reduction (Enqueue_data_init dims n nps ok) = False"
| "is_reduction (Get_cancel c) = False"
| "is_reduction (Mem_copy_from b n) = False"

text \<open>
  The events of a path-iteration pass: enqueues of the nine path-iteration
  kernels, cancel polls and read-backs of \<^verbatim>\<open>ray_state\<close>.
\<close>

fun pass_event :: "event \<Rightarrow> bool" where
  "pass_event (Enqueue name dims ok) = (name \<noteq> Sum_all_radiance)"
| "pass_event (Get_cancel c) = True"
| "pass_event (Mem_copy_from b n) = (b = Ray_state)"
| "pass_event (Mem_alloc b n) = False"
| "pass_event (Mem_free b) = False"
| "pass_event (Enqueue_data_init dims n nps ok) = False"

text \<open>
  The members that only \<^verbatim>\<open>load_kernels\<close> and the end of
  \<^verbatim>\<open>path_trace\<close> write.
\<close>

definition same_members :: "('w, 'k) state \<Rightarrow> ('w, 'k) state \<Rightarrow> bool" where
  "same_members s s' =
     (kernels s' = kernels s \<and> current_max_closure s' = current_max_closure s \<and>
      first_tile s' = first_tile s)"

text \<open>
  The events a call added to the log.
\<close>

definition events_since :: "('w, 'k) state \<Rightarrow> ('w, 'k) state \<Rightarrow> event list" where
  "events_since s s' = drop (length (trace s)) (trace s')"

text \<open>
  The first part of \<^verbatim>\<open>path_trace\<close> up to the data-init dispatch (lines
  117 to 164), on the work size that the sizing block returned, and the
  locals as lines 172 to 174 initialise them.
\<close>

definition start_of_tile ::
  "config \<Rightarrow> ('w, 'k) device \<Rightarrow> render_tile \<Rightarrow> int2 \<Rightarrow> nat \<Rightarrow> work_size \<Rightarrow> ('w, 'k) state
     \<Rightarrow> bool \<times> ('w, 'k) state" where
  "start_of_tile cfg dev rtile max_size per_thread_output_buffer_size ws s =
     data_init dev
       (KernelDimensions (global_size_0 ws, global_size_1 ws)
          (SPLIT_KERNEL_LOCAL_SIZE_X cfg, SPLIT_KERNEL_LOCAL_SIZE_Y cfg))
       rtile (sint (x max_size) * sint (y max_size)) (num_parallel_samples ws)
       (if first_tile s
        then allocate_global_memory cfg dev max_size per_thread_output_buffer_size s
        else s)"

definition initial_locals :: "('w, 'k) state \<Rightarrow> locals" where
  "initial_locals s =
     \<lparr>canceled = False, numHostIntervention = 0,
      numNextPathIterTimes = path_iteration_times s\<rparr>"

text \<open>
  A cancel request is not withdrawn: once \<^verbatim>\<open>get_cancel\<close> has answered
  true, it answers true again after the read-back that follows.
\<close>

definition cancel_is_sticky :: "('w, 'k) device \<Rightarrow> bool" where
  "cancel_is_sticky dev =
     (\<forall>w n. fst (get_cancel dev w) \<longrightarrow>
        fst (get_cancel dev (snd (mem_copy_from dev n (snd (get_cancel dev w))))))"

text \<open>
  A small configuration for runs of \<^verbatim>\<open>path_trace\<close>: an increment of 2, a
  local size of 2 by 1, work stealing; a tile of 2 by 1 with one sample and a
  maximum feasible tile size of 2 by 1, so that the dispatch grid has two
  lanes. \<open>loaded sc\<close> is a fresh scheduler on the scripted device after
  \<^verbatim>\<open>load_kernels\<close>. \<open>outcome\<close> shows of a result what a caller can
  observe: the return value, the locals, the next budget, the first-tile flag,
  the host copy of \<^verbatim>\<open>ray_state\<close> and the log.
\<close>

definition small_config :: config where
  "small_config =
     \<lparr>PATH_ITER_INC_FACTOR = 2, SPLIT_KERNEL_LOCAL_SIZE_X = 2, SPLIT_KERNEL_LOCAL_SIZE_Y = 1,
      RAY_INACTIVE = 1, NUM_QUEUES = 4, WORK_STEALING = True\<rparr>"

text \<open>
  A configuration with the local size 1 by 2 and the increment 1.
\<close>

definition thin_config :: config where
  "thin_config =
     \<lparr>PATH_ITER_INC_FACTOR = 1, SPLIT_KERNEL_LOCAL_SIZE_X = 1, SPLIT_KERNEL_LOCAL_SIZE_Y = 2,
      RAY_INACTIVE = 1, NUM_QUEUES = 4, WORK_STEALING = True\<rparr>"

definition small_tile :: render_tile where
  "small_tile = \<lparr>tile_w = 2, tile_h = 1, num_samples = 1\<rparr>"

definition small_max :: int2 where
  "small_max = \<lparr>x = 2, y = 1\<rparr>"

definition loaded :: "script \<Rightarrow> (counters, stage) state" where
  "loaded sc =
     snd (load_kernels (scripted_device sc) \<lparr>max_closure = 10\<rparr>
            (DeviceSplitKernel small_config no_calls))"

definition trace_small_tile ::
  "script \<Rightarrow> (counters, stage) state
     \<Rightarrow> (error + bool \<times> locals \<times> (counters, stage) state) option" where
  "trace_small_tile sc s = path_trace small_config (scripted_device sc) small_tile small_max 4 s"

definition outcome ::
  "(error + bool \<times> locals \<times> ('w, 'k) state) option
     \<Rightarrow> (error + bool \<times> locals \<times> c_uint \<times> bool \<times> 8 word list \<times> event list) option" where
  "outcome res =
     map_option
       (map_sum id
          (\<lambda>(r, l, s). (r, l, path_iteration_times s, first_tile s, ray_state s, trace s)))
       res"

text \<open>
  More scripts: lanes that stay active for two read-backs; a cancel request
  that is there from the first poll on; one that arrives with the third poll,
  the one after the activity scan; a data-init dispatch that fails; a fourth
  enqueue that fails; and a cancel request that is withdrawn after the first
  poll, on a device whose lanes stay active and whose tenth enqueue fails.
\<close>

definition busy_script :: script where
  "busy_script = ideal_script\<lparr>active_syncs := 2\<rparr>"

definition canceled_script :: script where
  "canceled_script = ideal_script\<lparr>active_syncs := 2, cancel_at := (\<lambda>i. True)\<rparr>"

definition late_cancel_script :: script where
  "late_cancel_script = ideal_script\<lparr>cancel_at := (\<lambda>i. 2 \<le> i)\<rparr>"

definition failed_init_script :: script where
  "failed_init_script = ideal_script\<lparr>init_ok := False\<rparr>"

definition failed_enqueue_script :: script where
  "failed_enqueue_script = ideal_script\<lparr>enqueue_ok := (\<lambda>i. i \<noteq> 3)\<rparr>"

definition withdrawn_cancel_script :: script where
  "withdrawn_cancel_script =
     ideal_script\<lparr>active_syncs := 2, cancel_at := (\<lambda>i. i = 0), enqueue_ok := (\<lambda>i. i < 9)\<rparr>"

text \<open>
  A device that lacks the sum-all-radiance kernel, with a cancel request that
  is there from the first poll on.
\<close>

definition no_reduction_script :: script where
  "no_reduction_script =
     ideal_script\<lparr>available := (\<lambda>name. name \<noteq> Sum_all_radiance), cancel_at := (\<lambda>i. True)\<rparr>"

text \<open>
  Two calls of \<^verbatim>\<open>path_trace\<close> in a row on one scheduler, whatever the
  first call returns.
\<close>

definition two_small_tiles ::
  "script \<Rightarrow> (error + bool \<times> locals \<times> (counters, stage) state) option" where
  "two_small_tiles sc =
     (case trace_small_tile sc (loaded sc) of
        Some (Inr (r, l, s)) \<Rightarrow> trace_small_tile sc s
      | other \<Rightarrow> other)"

text \<open>
  The starting budget is a positive multiple of the increment.
\<close>

definition budget_invariant :: "config \<Rightarrow> ('w, 'k) state \<Rightarrow> bool" where
  "budget_invariant cfg s =
     (0 < unat (path_iteration_times s) \<and>
      unat (PATH_ITER_INC_FACTOR cfg) dvd unat (path_iteration_times s))"

text \<open>
  Of a result, the return value, the locals, the next budget and the
  first-tile flag; and a device whose lanes stay active for a given number of
  read-backs.
\<close>

definition verdict ::
  "(error + bool \<times> locals \<times> ('w, 'k) state) option
     \<Rightarrow> (error + bool \<times> locals \<times> c_uint \<times> bool) option" where
  "verdict res =
     map_option (map_sum id (\<lambda>(r, l, s). (r, l, path_iteration_times s, first_tile s))) res"

definition busy_for :: "nat \<Rightarrow> script" where
  "busy_for n = ideal_script\<lparr>active_syncs := n\<rparr>"


text \<open>
  The controller in the words of the specification, on natural numbers: the
  budget of the next tile, from the increment, the budget of this tile and
  the number of host interventions. Whether the budget a call leaves is the
  one the specification names, and whether a call leaves the budget a positive
  multiple of the increment.
\<close>

definition spec_next_budget :: "nat \<Rightarrow> nat \<Rightarrow> nat \<Rightarrow> nat" where
  "spec_next_budget increment budget k =
     (if k = 0 then max increment (budget - increment) else budget + k * increment)"

text \<open>
  The number of host interventions of a tile whose \<^verbatim>\<open>while\<close> loop went
  round \<open>n\<close> times before the pass that left it: each of the \<open>n\<close> passes found
  active lanes, and so did the last pass if the bytes it read back, which the
  scheduler \<open>s\<close> still holds, have an active lane (the poll of line 227 ended
  the loop then).
\<close>

definition host_interventions :: "config \<Rightarrow> nat \<times> nat \<Rightarrow> nat \<Rightarrow> ('w, 'k) state \<Rightarrow> nat" where
  "host_interventions cfg gs n s =
     n + (if active_rays_available cfg ((fst gs * snd gs) mod 2 ^ 64) (ray_state s)
          then 1 else 0)"

definition budget_as_specified ::
  "config \<Rightarrow> ('w, 'k) state \<Rightarrow> (error + bool \<times> locals \<times> ('w, 'k) state) option
     \<Rightarrow> (error + bool) option" where
  "budget_as_specified cfg s res =
     map_option
       (map_sum id
          (\<lambda>(r, l, s').
             unat (path_iteration_times s') =
             spec_next_budget (unat (PATH_ITER_INC_FACTOR cfg)) (unat (path_iteration_times s))
               (unat (numHostIntervention l))))
       res"

definition invariant_after ::
  "config \<Rightarrow> (error + bool \<times> locals \<times> ('w, 'k) state) option \<Rightarrow> (error + bool) option" where
  "invariant_after cfg res = map_option (map_sum id (\<lambda>(r, l, s). budget_invariant cfg s)) res"
section \<open>Dispatch sizing\<close>

subsection \<open>Conversions and rounding\<close>

lemma to_size_t_id: "0 \<le> i \<Longrightarrow> i < 2 ^ 64 \<Longrightarrow> to_size_t i = nat i"
  by (simp add: to_size_t_def)

lemma to_uint_id: "0 \<le> i \<Longrightarrow> i < 2 ^ 32 \<Longrightarrow> to_uint i = nat i"
  by (simp add: to_uint_def)

lemma round_to_wavefront_le: "round_to_wavefront n \<le> n"
  by (simp add: round_to_wavefront_def)

lemma round_to_wavefront_small: "n < 64 \<Longrightarrow> round_to_wavefront n = n"
  by (simp add: round_to_wavefront_def)

lemma round_to_wavefront_large: "64 \<le> n \<Longrightarrow> 64 dvd round_to_wavefront n \<and> 64 \<le> round_to_wavefront n"
  by (auto simp add: round_to_wavefront_def)

lemma round_to_wavefront_zero: "round_to_wavefront n = 0 \<longleftrightarrow> n = 0"
  by (auto simp add: round_to_wavefront_def)

lemma to_int_id: "n < 2 ^ 31 \<Longrightarrow> to_int n = int n"
  by (simp add: to_int_def)

lemma to_int_negative:
  assumes "2 ^ 31 \<le> n" "n < 2 ^ 32"
  shows "to_int n = int n - 2 ^ 32"
proof -
  have "(int n + 2 ^ 31) mod 2 ^ 32 = (int n + 2 ^ 31 - 2 ^ 32) mod 2 ^ 32"
    by (metis minus_mod_self2)
  also have "\<dots> = int n + 2 ^ 31 - 2 ^ 32"
    using assms by (intro mod_pos_pos_trivial) simp_all
  finally show ?thesis by (simp add: to_int_def)
qed

lemma columns_per_sample_less: "columns_per_sample t g d < 2 ^ 32"
proof -
  have "columns_per_sample t g d \<le> (t div g) mod 2 ^ 32"
    unfolding columns_per_sample_def Let_def by (rule div_le_dividend)
  also have "\<dots> < 2 ^ 32" by simp
  finally show ?thesis .
qed

lemma columns_per_sample_le: "columns_per_sample t g d \<le> t"
proof -
  have "columns_per_sample t g d \<le> (t div g) mod 2 ^ 32"
    unfolding columns_per_sample_def Let_def by (rule div_le_dividend)
  also have "\<dots> \<le> t div g" by simp
  also have "\<dots> \<le> t" by (rule div_le_dividend)
  finally show ?thesis .
qed

lemma raw_parallel_samples_eq:
  assumes "0 \<le> n" "columns_per_sample t g d < 2 ^ 31"
  shows "int (raw_parallel_samples t g d n) = ccl_min (int (columns_per_sample t g d)) n"
proof -
  define q where "q = columns_per_sample t g d"
  have "int q < 2 ^ 32" using assms(2) unfolding q_def by simp
  then have r: "0 \<le> ccl_min (int q) n" "ccl_min (int q) n < 2 ^ 32"
    using assms(1) by (auto simp: ccl_min_def)
  have "raw_parallel_samples t g d n = to_uint (ccl_min (int q) n)"
    unfolding raw_parallel_samples_def q_def using assms(2) by (simp add: to_int_id)
  then show ?thesis using r unfolding q_def [symmetric] by (simp add: to_uint_id)
qed

lemma raw_parallel_samples_le_samples:
  "0 \<le> n \<Longrightarrow> columns_per_sample t g d < 2 ^ 31 \<Longrightarrow> int (raw_parallel_samples t g d n) \<le> n"
  by (simp add: raw_parallel_samples_eq ccl_min_def)

lemma raw_parallel_samples_le_columns:
  assumes "0 \<le> n"
  shows "raw_parallel_samples t g d n \<le> columns_per_sample t g d"
proof (cases "columns_per_sample t g d < 2 ^ 31")
  case True
  have "int (raw_parallel_samples t g d n) \<le> int (columns_per_sample t g d)"
    using assms True by (simp add: raw_parallel_samples_eq ccl_min_def)
  then show ?thesis by (simp only: of_nat_le_iff)
next
  case False
  define q where "q = columns_per_sample t g d"
  have q: "2 ^ 31 \<le> q" "q < 2 ^ 32"
    using False columns_per_sample_less [of t g d] unfolding q_def by simp_all
  have neg: "to_int q = int q - 2 ^ 32" using q by (rule to_int_negative)
  then have "to_int q < n" using q(2) assms by simp
  then have "raw_parallel_samples t g d n = to_uint (int q - 2 ^ 32)"
    unfolding raw_parallel_samples_def q_def [symmetric] by (simp add: ccl_min_def neg)
  also have "\<dots> = q"
  proof -
    have "(int q - 2 ^ 32) mod 2 ^ 32 = int q mod 2 ^ 32" by (metis minus_mod_self2)
    also have "\<dots> = int q" using q(2) by (intro mod_pos_pos_trivial) simp_all
    finally show ?thesis by (simp add: to_uint_def)
  qed
  finally show ?thesis unfolding q_def by simp
qed


lemma round_up_local_fits:
  assumes "0 < ls" "0 < d" "d \<le> m" "m mod int ls = 0" "m < 2 ^ 63"
  shows "round_up_local d ls \<le> nat m" "nat d \<le> round_up_local d ls"
proof -
  define k where "k = nat (d - 1)"
  have k: "to_size_t (d - 1) = k"
    using assms by (simp add: k_def to_size_t_id)
  obtain c where c: "m = int ls * c" using assms(4) by auto
  have cpos: "0 < c" using assms c by (metis less_le_trans zero_less_mult_pos of_nat_0_less_iff)
  define cn where "cn = nat c"
  have m: "nat m = cn * ls" using c cpos by (simp add: cn_def nat_mult_distrib mult.commute)
  have "k < nat m" using assms by (simp add: k_def)
  then have "k div ls < cn" using m assms(1) by (simp add: div_less_iff_less_mult)
  then have "k div ls + 1 \<le> cn" by simp
  then have "(k div ls + 1) * ls \<le> cn * ls" by (rule mult_le_mono1)
  then have le: "(k div ls + 1) * ls \<le> nat m" using m by simp
  moreover have "nat m < 2 ^ 64" using assms by (simp add: nat_less_iff)
  ultimately have nowrap: "round_up_local d ls = (k div ls + 1) * ls"
    by (simp add: round_up_local_def k)
  show "round_up_local d ls \<le> nat m" using le nowrap by simp
  have "k < (k div ls + 1) * ls" using assms(1)
    by (metis Suc_eq_plus1 dividend_less_div_times mult.commute mult_Suc)
  then show "nat d \<le> round_up_local d ls" using nowrap assms by (simp add: k_def)
qed

lemma sint_ranges:
  fixes w :: "32 word"
  shows "sint w < 2 ^ 31" "- (2 ^ 31) \<le> sint w"
  using sint_lt [of w] sint_ge [of w] by simp_all

subsection \<open>The fixed-allocation strategy\<close>

lemma raw_samples_positive:
  assumes "sizing_preconditions cfg rtile ms"
  shows "0 < raw_samples cfg rtile ms"
proof -
  define mx my d_w d_h n ly where
    "mx = sint (x ms)" and "my = sint (y ms)" and "d_w = sint (tile_w rtile)" and
    "d_h = sint (tile_h rtile)" and "n = sint (num_samples rtile)" and
    "ly = SPLIT_KERNEL_LOCAL_SIZE_Y cfg"
  have pre: "0 < ly" "my mod int ly = 0" "0 < d_w" "d_w \<le> mx" "0 < d_h" "d_h \<le> my"
    "1 \<le> n" "in_int_range (mx * my)"
    using assms unfolding sizing_preconditions_def mx_def my_def d_w_def d_h_def n_def ly_def
    by simp_all
  have my_lt: "my < 2 ^ 63"
    using sint_lt [of "y ms"] unfolding my_def by simp
  define g where "g = round_up_local d_h ly"
  have g: "g \<le> nat my" "nat d_h \<le> g"
    unfolding g_def using round_up_local_fits [OF pre(1) pre(5) pre(6) pre(2) my_lt] by simp_all
  have gpos: "0 < g" using g(2) pre(5) by linarith
  have prod: "0 \<le> mx * my" "mx * my < 2 ^ 32"
    using pre by (auto simp: in_int_range_def INT_MAX_def)
  define t where "t = to_uint (mx * my)"
  have t: "t = nat mx * nat my"
    unfolding t_def using prod pre by (simp add: to_uint_id nat_mult_distrib)
  have "nat mx * g \<le> t" unfolding t using g(1) by simp
  then have "nat mx \<le> t div g" using gpos
    by (simp add: less_eq_div_iff_mult_less_eq)
  moreover have "t < 2 ^ 32" unfolding t_def using prod by (simp add: to_uint_id nat_less_iff)
  then have "t div g < 2 ^ 32" using div_le_dividend le_less_trans by blast
  ultimately have cols: "nat mx \<le> (t div g) mod 2 ^ 32" by simp
  have dw: "to_uint d_w = nat d_w"
    using pre(3) sint_lt [of "tile_w rtile"] unfolding d_w_def by (simp add: to_uint_id)
  have "nat d_w \<le> (t div g) mod 2 ^ 32" using cols pre by linarith
  then have "1 \<le> ((t div g) mod 2 ^ 32) div to_uint d_w"
    unfolding dw using pre(3) by (simp add: less_eq_div_iff_mult_less_eq)
  then have q: "1 \<le> columns_per_sample t g d_w"
    by (simp add: columns_per_sample_def)
  have "t < 2 ^ 31"
    using pre(8) prod(1) unfolding t_def
    by (simp add: to_uint_id nat_less_iff in_int_range_def INT_MAX_def)
  then have small: "columns_per_sample t g d_w < 2 ^ 31"
    using columns_per_sample_le [of t g d_w] by simp
  have "int (raw_parallel_samples t g d_w n) = ccl_min (int (columns_per_sample t g d_w)) n"
    using pre(7) small by (intro raw_parallel_samples_eq) simp_all
  also have "\<dots> \<ge> 1" using q pre(7) by (simp add: ccl_min_def)
  finally have "0 < raw_parallel_samples t g d_w n" by simp
  then show ?thesis
    unfolding raw_samples_def Let_def t_def g_def mx_def my_def d_w_def d_h_def n_def ly_def .
qed

lemma fixed_area:
  assumes n: "0 \<le> n" and g: "0 < g" and nps: "nps \<le> raw_parallel_samples t g d n"
  shows "((to_uint d * nps) mod 2 ^ 32) * g \<le> t"
proof -
  define c where "c = (t div g) mod 2 ^ 32"
  have "nps \<le> c div to_uint d"
    using nps raw_parallel_samples_le_columns [OF n, of t g d]
    unfolding c_def columns_per_sample_def Let_def by simp
  then have "to_uint d * nps \<le> to_uint d * (c div to_uint d)" by simp
  also have "\<dots> \<le> c" by simp
  finally have "(to_uint d * nps) mod 2 ^ 32 \<le> c" using mod_less_eq_dividend le_trans by blast
  also have "c \<le> t div g" unfolding c_def by simp
  finally have "((to_uint d * nps) mod 2 ^ 32) * g \<le> (t div g) * g" by simp
  also have "\<dots> \<le> t" by simp
  finally show ?thesis .
qed

lemma lane_quotient_small:
  assumes "0 \<le> sint (x ms) * sint (y ms)" "in_int_range (sint (x ms) * sint (y ms))"
  shows "lane_quotient cfg rtile ms < 2 ^ 31"
proof -
  have "to_uint (sint (x ms) * sint (y ms)) < 2 ^ 31"
    using assms by (simp add: to_uint_id nat_less_iff in_int_range_def INT_MAX_def)
  then show ?thesis
    unfolding lane_quotient_def Let_def
    using columns_per_sample_le le_less_trans by blast
qed

lemma to_uint_le_to_size_t: "in_int_range p \<Longrightarrow> to_uint p \<le> to_size_t p"
proof (cases "0 \<le> p")
  case True
  assume "in_int_range p"
  then have "p < 2 ^ 32" "p < 2 ^ 64" by (simp_all add: in_int_range_def INT_MAX_def)
  then show ?thesis using True by (simp add: to_uint_def to_size_t_def)
next
  case False
  assume r: "in_int_range p"
  have "p mod 2 ^ 32 = (p + 2 ^ 32) mod 2 ^ 32" by simp
  also have "\<dots> = p + 2 ^ 32"
    using False r by (intro mod_pos_pos_trivial) (simp_all add: in_int_range_def INT_MIN_def)
  finally have a: "p mod 2 ^ 32 = p + 2 ^ 32" .
  have "p mod 2 ^ 64 = (p + 2 ^ 64) mod 2 ^ 64" by simp
  also have "\<dots> = p + 2 ^ 64"
    using False r by (intro mod_pos_pos_trivial) (simp_all add: in_int_range_def INT_MIN_def)
  finally have b: "p mod 2 ^ 64 = p + 2 ^ 64" .
  show ?thesis unfolding to_uint_def to_size_t_def a b by simp
qed

lemma compute_work_size_fixed_Inr:
  assumes ws: "\<not> WORK_STEALING cfg" and pre: "sizing_preconditions cfg rtile ms"
  shows "\<exists>ws. compute_work_size cfg rtile ms = Inr ws \<and>
              num_parallel_samples ws = fixed_allocation_samples cfg rtile ms"
proof -
  define mx my d_w d_h n lx ly where
    "mx = sint (x ms)" and "my = sint (y ms)" and "d_w = sint (tile_w rtile)" and
    "d_h = sint (tile_h rtile)" and "n = sint (num_samples rtile)" and
    "lx = SPLIT_KERNEL_LOCAL_SIZE_X cfg" and "ly = SPLIT_KERNEL_LOCAL_SIZE_Y cfg"
  note defs = mx_def my_def d_w_def d_h_def n_def lx_def ly_def
  have p: "0 < lx" "0 < ly" "mx mod int lx = 0" "my mod int ly = 0" "0 < d_w" "d_w \<le> mx"
    "0 < d_h" "d_h \<le> my" "1 \<le> n" "in_int_range (mx * my)"
    using pre unfolding sizing_preconditions_def defs by simp_all
  have rng: "in_int_range (d_w - 1)" "in_int_range (d_h - 1)"
    using p(5) p(7) sint_ranges [of "tile_w rtile"] sint_ranges [of "tile_h rtile"]
    unfolding defs in_int_range_def INT_MIN_def INT_MAX_def by simp_all
  define g where "g = round_up_local d_h ly"
  have my_lt: "my < 2 ^ 63" using sint_ranges(1) [of "y ms"] unfolding my_def by simp
  have g: "g \<le> nat my" "nat d_h \<le> g"
    unfolding g_def using round_up_local_fits [OF p(2) p(7) p(8) p(4) my_lt] by simp_all
  have gpos: "0 < g" using g(2) p(7) by linarith
  have dw: "to_uint d_w = nat d_w"
    using p(5) sint_ranges(1) [of "tile_w rtile"] unfolding d_w_def by (simp add: to_uint_id)
  have dwpos: "to_uint d_w \<noteq> 0" using dw p(5) by simp
  define nps where "nps = fixed_allocation_samples cfg rtile ms"
  have npspos: "nps \<noteq> 0"
    using raw_samples_positive [OF pre]
    by (simp add: nps_def fixed_allocation_samples_def round_to_wavefront_zero)
  have n0: "0 \<le> n" using p(9) by simp
  have "nps \<le> raw_parallel_samples (to_uint (mx * my)) g d_w n"
    unfolding nps_def fixed_allocation_samples_def raw_samples_def Let_def g_def defs
    by (rule round_to_wavefront_le)
  from fixed_area [OF n0 gpos this]
  have area: "((to_uint d_w * nps) mod 2 ^ 32) * g \<le> to_uint (mx * my)" .
  have "to_uint (mx * my) < 2 ^ 64"
    by (simp add: to_uint_def nat_less_iff)
  then have "(((to_uint d_w * nps) mod 2 ^ 32) * g) mod 2 ^ 64 \<le> to_size_t (mx * my)"
    using area to_uint_le_to_size_t [OF p(10)] by simp
  then show ?thesis
    using ws p rng gpos dwpos npspos
    unfolding compute_work_size_def Let_def defs [symmetric] g_def [symmetric] nps_def [symmetric]
    by simp
qed

lemma compute_work_size_fixed_samples:
  assumes "\<not> WORK_STEALING cfg" "compute_work_size cfg rtile ms = Inr ws"
  shows "num_parallel_samples ws = fixed_allocation_samples cfg rtile ms \<and>
         num_parallel_samples ws \<noteq> 0"
  using assms unfolding compute_work_size_def Let_def
  by (auto split: if_splits)

lemmas sizing_eval =
  fixed_allocation_config_def work_stealing_config_def compute_work_size_def
  fixed_allocation_samples_def raw_samples_def raw_parallel_samples_def round_to_wavefront_def
  lane_quotient_def columns_per_sample_def to_int_def
  round_up_local_def to_size_t_def to_uint_def ccl_min_def in_int_range_def INT_MIN_def
  INT_MAX_def sizing_preconditions_def Let_def

text \<open>
  Claim C3, as stated, fails where the requested sample count is negative and
  where the quotient lane budget / rounded tile height / tile width is
  \<open>2 ^ 31\<close> or more: \<^verbatim>\<open>min\<close> compares its arguments as
  \<^verbatim>\<open>int\<close> and the result is stored in an \<^verbatim>\<open>unsigned int\<close>.
  A tile of 1 by 1 with 16 requested samples and the maximum feasible tile size
  \<open>(-64, 1)\<close> passes every assertion of the sizing block with 4294967232
  parallel samples; a tile of 64 by 1 with \<open>-1\<close> requested samples in a budget
  of 64 by 1 lanes has 4294967232 parallel samples as well.
\<close>

theorem parallel_samples_counterexample:
  "compute_work_size fixed_allocation_config
     \<lparr>tile_w = 1, tile_h = 1, num_samples = 16\<rparr> \<lparr>x = - 64, y = 1\<rparr> =
     Inr \<lparr>global_size_0 = 4294967232, global_size_1 = 1, num_parallel_samples = 4294967232\<rparr> \<and>
   sint (num_samples \<lparr>tile_w = 1, tile_h = 1, num_samples = 16\<rparr>) = 16 \<and>
   fixed_allocation_samples fixed_allocation_config
     \<lparr>tile_w = 64, tile_h = 1, num_samples = - 1\<rparr> \<lparr>x = 64, y = 1\<rparr> = 4294967232 \<and>
   sint (num_samples \<lparr>tile_w = 64, tile_h = 1, num_samples = - 1\<rparr>) = - 1"
  by (simp add: sizing_eval)

text \<open>
  Claim C3, amended. In the fixed-allocation strategy, for every tile whose
  requested sample count is not negative and whose quotient lane budget /
  rounded tile height / tile width is below \<open>2 ^ 31\<close> (as it is whenever the
  maximum feasible area is a non-negative \<^verbatim>\<open>int\<close>), the parallel sample
  count never exceeds the requested sample count and the raw value is the
  smaller of that quotient and the requested sample count. For every tile, the
  count is the raw value where that is below 64 and a positive multiple of 64
  where it is at least 64. Under the sizing preconditions it is not zero, so
  that the assertion \<^verbatim>\<open>num_parallel_samples != 0\<close> holds and the sizing
  block returns this count.
\<close>

theorem parallel_samples_fixed_allocation:
  "(0 \<le> sint (num_samples rtile) \<and> lane_quotient cfg rtile ms < 2 ^ 31 \<longrightarrow>
      int (fixed_allocation_samples cfg rtile ms) \<le> sint (num_samples rtile) \<and>
      int (raw_samples cfg rtile ms) =
        min (int (lane_quotient cfg rtile ms)) (sint (num_samples rtile))) \<and>
   (0 \<le> sint (x ms) * sint (y ms) \<and> in_int_range (sint (x ms) * sint (y ms)) \<longrightarrow>
      lane_quotient cfg rtile ms < 2 ^ 31) \<and>
   (raw_samples cfg rtile ms < 64 \<longrightarrow>
      fixed_allocation_samples cfg rtile ms = raw_samples cfg rtile ms) \<and>
   (64 \<le> raw_samples cfg rtile ms \<longrightarrow>
      64 dvd fixed_allocation_samples cfg rtile ms \<and> 0 < fixed_allocation_samples cfg rtile ms) \<and>
   (sizing_preconditions cfg rtile ms \<longrightarrow> fixed_allocation_samples cfg rtile ms \<noteq> 0) \<and>
   (\<not> WORK_STEALING cfg \<and> sizing_preconditions cfg rtile ms \<longrightarrow>
      (\<exists>ws. compute_work_size cfg rtile ms = Inr ws)) \<and>
   (\<forall>ws. \<not> WORK_STEALING cfg \<and> compute_work_size cfg rtile ms = Inr ws \<longrightarrow>
      num_parallel_samples ws = fixed_allocation_samples cfg rtile ms \<and>
      num_parallel_samples ws \<noteq> 0)"
proof (intro conjI impI allI)
  assume a: "0 \<le> sint (num_samples rtile) \<and> lane_quotient cfg rtile ms < 2 ^ 31"
  then have n: "0 \<le> sint (num_samples rtile)" and q: "lane_quotient cfg rtile ms < 2 ^ 31"
    by simp_all
  have "int (fixed_allocation_samples cfg rtile ms) \<le> int (raw_samples cfg rtile ms)"
    unfolding fixed_allocation_samples_def using round_to_wavefront_le by simp
  also have "\<dots> \<le> sint (num_samples rtile)"
    using q unfolding raw_samples_def lane_quotient_def Let_def
    by (rule raw_parallel_samples_le_samples [OF n])
  finally show "int (fixed_allocation_samples cfg rtile ms) \<le> sint (num_samples rtile)" .
  show "int (raw_samples cfg rtile ms) =
        min (int (lane_quotient cfg rtile ms)) (sint (num_samples rtile))"
    using q raw_parallel_samples_eq [OF n]
    unfolding raw_samples_def lane_quotient_def Let_def
    by (simp add: ccl_min_def min_def)
next
  assume "0 \<le> sint (x ms) * sint (y ms) \<and> in_int_range (sint (x ms) * sint (y ms))"
  then show "lane_quotient cfg rtile ms < 2 ^ 31"
    using lane_quotient_small by blast
next
  assume "raw_samples cfg rtile ms < 64"
  then show "fixed_allocation_samples cfg rtile ms = raw_samples cfg rtile ms"
    by (simp add: fixed_allocation_samples_def round_to_wavefront_small)
next
  assume r: "64 \<le> raw_samples cfg rtile ms"
  show "64 dvd fixed_allocation_samples cfg rtile ms"
    using round_to_wavefront_large [OF r] by (simp add: fixed_allocation_samples_def)
  show "0 < fixed_allocation_samples cfg rtile ms"
    using round_to_wavefront_large [OF r] by (simp add: fixed_allocation_samples_def)
next
  assume "sizing_preconditions cfg rtile ms"
  from raw_samples_positive [OF this]
  show "fixed_allocation_samples cfg rtile ms \<noteq> 0"
    by (simp add: fixed_allocation_samples_def round_to_wavefront_zero)
next
  assume "\<not> WORK_STEALING cfg \<and> sizing_preconditions cfg rtile ms"
  then show "\<exists>ws. compute_work_size cfg rtile ms = Inr ws"
    using compute_work_size_fixed_Inr by blast
next
  fix ws
  assume a: "\<not> WORK_STEALING cfg \<and> compute_work_size cfg rtile ms = Inr ws"
  then show "num_parallel_samples ws = fixed_allocation_samples cfg rtile ms"
    using compute_work_size_fixed_samples by blast
  from a show "num_parallel_samples ws \<noteq> 0"
    using compute_work_size_fixed_samples by blast
qed

text \<open>
  The theorem with the local size 64 by 16, where the tile height is rounded
  up: at a tile of 3 by 5 with 100 samples in a budget of 64 by 64 lanes (the
  height becomes 16, the quotient 85, the raw value 85, rounded down to 64),
  and at the same tile in a budget of 64 by 16 lanes (the quotient and the raw
  value 21).
\<close>

theorem parallel_samples_fixed_allocation_witness:
  "sizing_preconditions (fixed_allocation_config\<lparr>SPLIT_KERNEL_LOCAL_SIZE_Y := 16\<rparr>)
     \<lparr>tile_w = 3, tile_h = 5, num_samples = 100\<rparr> \<lparr>x = 64, y = 64\<rparr> \<and>
   lane_quotient (fixed_allocation_config\<lparr>SPLIT_KERNEL_LOCAL_SIZE_Y := 16\<rparr>)
     \<lparr>tile_w = 3, tile_h = 5, num_samples = 100\<rparr> \<lparr>x = 64, y = 64\<rparr> = 85 \<and>
   raw_samples (fixed_allocation_config\<lparr>SPLIT_KERNEL_LOCAL_SIZE_Y := 16\<rparr>)
     \<lparr>tile_w = 3, tile_h = 5, num_samples = 100\<rparr> \<lparr>x = 64, y = 64\<rparr> = 85 \<and>
   compute_work_size (fixed_allocation_config\<lparr>SPLIT_KERNEL_LOCAL_SIZE_Y := 16\<rparr>)
     \<lparr>tile_w = 3, tile_h = 5, num_samples = 100\<rparr> \<lparr>x = 64, y = 64\<rparr> =
     Inr \<lparr>global_size_0 = 192, global_size_1 = 16, num_parallel_samples = 64\<rparr> \<and>
   sizing_preconditions (fixed_allocation_config\<lparr>SPLIT_KERNEL_LOCAL_SIZE_Y := 16\<rparr>)
     \<lparr>tile_w = 3, tile_h = 5, num_samples = 100\<rparr> \<lparr>x = 64, y = 16\<rparr> \<and>
   lane_quotient (fixed_allocation_config\<lparr>SPLIT_KERNEL_LOCAL_SIZE_Y := 16\<rparr>)
     \<lparr>tile_w = 3, tile_h = 5, num_samples = 100\<rparr> \<lparr>x = 64, y = 16\<rparr> = 21 \<and>
   raw_samples (fixed_allocation_config\<lparr>SPLIT_KERNEL_LOCAL_SIZE_Y := 16\<rparr>)
     \<lparr>tile_w = 3, tile_h = 5, num_samples = 100\<rparr> \<lparr>x = 64, y = 16\<rparr> = 21 \<and>
   compute_work_size (fixed_allocation_config\<lparr>SPLIT_KERNEL_LOCAL_SIZE_Y := 16\<rparr>)
     \<lparr>tile_w = 3, tile_h = 5, num_samples = 100\<rparr> \<lparr>x = 64, y = 16\<rparr> =
     Inr \<lparr>global_size_0 = 63, global_size_1 = 16, num_parallel_samples = 21\<rparr>"
  using parallel_samples_fixed_allocation
      [of "\<lparr>tile_w = 3, tile_h = 5, num_samples = 100\<rparr>"
          "fixed_allocation_config\<lparr>SPLIT_KERNEL_LOCAL_SIZE_Y := 16\<rparr>" "\<lparr>x = 64, y = 64\<rparr>"]
    parallel_samples_fixed_allocation
      [of "\<lparr>tile_w = 3, tile_h = 5, num_samples = 100\<rparr>"
          "fixed_allocation_config\<lparr>SPLIT_KERNEL_LOCAL_SIZE_Y := 16\<rparr>" "\<lparr>x = 64, y = 16\<rparr>"]
  by (simp add: sizing_eval)

subsection \<open>The area of the dispatch grid\<close>

lemma round_up_local_multiple:
  assumes "0 < ls" "0 < d" "d mod int ls = 0" "d < 2 ^ 63"
  shows "round_up_local d ls = nat d"
  using round_up_local_fits [OF assms(1) assms(2) order_refl assms(3) assms(4)] by simp

lemma compute_work_size_area_stealing:
  assumes ws: "WORK_STEALING cfg"
    and l: "0 < SPLIT_KERNEL_LOCAL_SIZE_X cfg" "0 < SPLIT_KERNEL_LOCAL_SIZE_Y cfg"
    and m: "sint (x ms) mod int (SPLIT_KERNEL_LOCAL_SIZE_X cfg) = 0"
           "sint (y ms) mod int (SPLIT_KERNEL_LOCAL_SIZE_Y cfg) = 0"
    and t: "0 < sint (tile_w rtile)" "0 < sint (tile_h rtile)"
    and fit: "sint (tile_w rtile) \<le> sint (x ms)" "sint (tile_h rtile) \<le> sint (y ms)"
    and rng: "in_int_range (sint (x ms) * sint (y ms))"
  shows "(round_up_local (sint (tile_w rtile)) (SPLIT_KERNEL_LOCAL_SIZE_X cfg) *
          round_up_local (sint (tile_h rtile)) (SPLIT_KERNEL_LOCAL_SIZE_Y cfg)) mod 2 ^ 64
         \<le> to_size_t (sint (x ms) * sint (y ms))"
proof -
  define mx my where "mx = sint (x ms)" and "my = sint (y ms)"
  have lt: "mx < 2 ^ 63" "my < 2 ^ 63"
    using sint_ranges(1) [of "x ms"] sint_ranges(1) [of "y ms"] unfolding mx_def my_def by simp_all
  have g0: "round_up_local (sint (tile_w rtile)) (SPLIT_KERNEL_LOCAL_SIZE_X cfg) \<le> nat mx"
    using round_up_local_fits(1) [OF l(1) t(1) fit(1) m(1)] lt unfolding mx_def by simp
  have g1: "round_up_local (sint (tile_h rtile)) (SPLIT_KERNEL_LOCAL_SIZE_Y cfg) \<le> nat my"
    using round_up_local_fits(1) [OF l(2) t(2) fit(2) m(2)] lt unfolding my_def by simp
  have pos: "0 < mx" "0 < my" using t fit unfolding mx_def my_def by simp_all
  have p: "mx * my < 2 ^ 64" "0 \<le> mx * my"
    using rng pos unfolding in_int_range_def INT_MAX_def mx_def my_def by simp_all
  have "round_up_local (sint (tile_w rtile)) (SPLIT_KERNEL_LOCAL_SIZE_X cfg) *
        round_up_local (sint (tile_h rtile)) (SPLIT_KERNEL_LOCAL_SIZE_Y cfg) \<le> nat mx * nat my"
    using g0 g1 by (rule mult_le_mono)
  also have "\<dots> = to_size_t (mx * my)"
    using p pos by (simp add: to_size_t_id nat_mult_distrib)
  finally show ?thesis
    unfolding mx_def my_def using mod_less_eq_dividend le_trans by blast
qed

lemma compute_work_size_area_fixed:
  assumes n: "0 \<le> sint (num_samples rtile)"
    and g: "round_up_local (sint (tile_h rtile)) (SPLIT_KERNEL_LOCAL_SIZE_Y cfg) \<noteq> 0"
    and rng: "in_int_range (sint (x ms) * sint (y ms))"
  shows "(((to_uint (sint (tile_w rtile)) * fixed_allocation_samples cfg rtile ms) mod 2 ^ 32) *
          round_up_local (sint (tile_h rtile)) (SPLIT_KERNEL_LOCAL_SIZE_Y cfg)) mod 2 ^ 64
         \<le> to_size_t (sint (x ms) * sint (y ms))"
proof -
  define gs1 where "gs1 = round_up_local (sint (tile_h rtile)) (SPLIT_KERNEL_LOCAL_SIZE_Y cfg)"
  define t where "t = to_uint (sint (x ms) * sint (y ms))"
  have gpos: "0 < gs1" using g unfolding gs1_def by simp
  have "fixed_allocation_samples cfg rtile ms
        \<le> raw_parallel_samples t gs1 (sint (tile_w rtile)) (sint (num_samples rtile))"
    unfolding fixed_allocation_samples_def raw_samples_def Let_def gs1_def t_def
    by (rule round_to_wavefront_le)
  from fixed_area [OF n gpos this]
  have "((to_uint (sint (tile_w rtile)) * fixed_allocation_samples cfg rtile ms) mod 2 ^ 32) * gs1
        \<le> to_size_t (sint (x ms) * sint (y ms))"
    unfolding t_def using to_uint_le_to_size_t [OF rng] by simp
  then show ?thesis
    unfolding gs1_def using mod_less_eq_dividend le_trans by blast
qed

text \<open>
  Claim C2, as stated, fails in the work-stealing strategy: a tile of 128 by 1
  and a maximum feasible tile size of 64 by 1 are both multiples of the local
  size 64 by 1, and the grid of 128 lanes exceeds the 64 feasible ones; the
  assertion of line 114 fails.
\<close>

theorem dispatch_area_counterexample:
  "sint (tile_w \<lparr>tile_w = 128, tile_h = 1, num_samples = 1\<rparr>)
     mod int (SPLIT_KERNEL_LOCAL_SIZE_X work_stealing_config) = 0 \<and>
   sint (tile_h \<lparr>tile_w = 128, tile_h = 1, num_samples = 1\<rparr>)
     mod int (SPLIT_KERNEL_LOCAL_SIZE_Y work_stealing_config) = 0 \<and>
   sint (x \<lparr>x = 64, y = 1\<rparr>) mod int (SPLIT_KERNEL_LOCAL_SIZE_X work_stealing_config) = 0 \<and>
   sint (y \<lparr>x = 64, y = 1\<rparr>) mod int (SPLIT_KERNEL_LOCAL_SIZE_Y work_stealing_config) = 0 \<and>
   compute_work_size work_stealing_config
     \<lparr>tile_w = 128, tile_h = 1, num_samples = 1\<rparr> \<lparr>x = 64, y = 1\<rparr> =
     Inl (Assertion_failed Global_size_within_max_feasible)"
  by (simp add: sizing_eval)

text \<open>
  Claim C2, amended. For every tile of positive width and height and of
  non-negative sample count whose width and height are multiples of the local
  size, and every positive maximum feasible tile size whose dimensions are
  multiples of the local size and whose area an \<^verbatim>\<open>int\<close> holds, the
  assertion of line 114 holds in the fixed-allocation strategy, if the
  assertion \<^verbatim>\<open>num_parallel_samples != 0\<close> before it does; in the
  work-stealing strategy it holds provided the tile is no wider and no higher
  than the maximum feasible tile size. The sizing block then returns the grid,
  and the area of the grid is at most the maximum feasible area.
\<close>

theorem dispatch_area_within_max_feasible:
  assumes "0 < SPLIT_KERNEL_LOCAL_SIZE_X cfg" and "0 < SPLIT_KERNEL_LOCAL_SIZE_Y cfg"
    and "sint (tile_w rtile) mod int (SPLIT_KERNEL_LOCAL_SIZE_X cfg) = 0"
    and "sint (tile_h rtile) mod int (SPLIT_KERNEL_LOCAL_SIZE_Y cfg) = 0"
    and "sint (x ms) mod int (SPLIT_KERNEL_LOCAL_SIZE_X cfg) = 0"
    and "sint (y ms) mod int (SPLIT_KERNEL_LOCAL_SIZE_Y cfg) = 0"
    and "0 < sint (tile_w rtile)" and "0 < sint (tile_h rtile)"
    and "0 < sint (x ms)" and "0 < sint (y ms)"
    and "0 \<le> sint (num_samples rtile)"
    and "WORK_STEALING cfg \<longrightarrow>
           sint (tile_w rtile) \<le> sint (x ms) \<and> sint (tile_h rtile) \<le> sint (y ms)"
    and "sint (x ms) * sint (y ms) \<le> INT_MAX"
  shows "((\<exists>ws. compute_work_size cfg rtile ms = Inr ws) \<or>
          \<not> WORK_STEALING cfg \<and> fixed_allocation_samples cfg rtile ms = 0 \<and>
          compute_work_size cfg rtile ms = Inl (Assertion_failed Num_parallel_samples_nonzero)) \<and>
         (\<forall>ws. compute_work_size cfg rtile ms = Inr ws \<longrightarrow>
            int (global_size_0 ws * global_size_1 ws) \<le> sint (x ms) * sint (y ms))"
proof -
  have "0 < sint (x ms) * sint (y ms)" using assms(9,10) by simp
  then have rng: "in_int_range (sint (x ms) * sint (y ms))"
    using assms(13) by (simp add: in_int_range_def INT_MIN_def)
  have dr: "in_int_range (sint (tile_w rtile) - 1)" "in_int_range (sint (tile_h rtile) - 1)"
    using assms(7,8) sint_ranges(1) [of "tile_w rtile"] sint_ranges(1) [of "tile_h rtile"]
    by (simp_all add: in_int_range_def INT_MIN_def INT_MAX_def)
  have lt: "sint (tile_w rtile) < 2 ^ 63" "sint (tile_h rtile) < 2 ^ 63"
    using sint_ranges(1) [of "tile_w rtile"] sint_ranges(1) [of "tile_h rtile"] by simp_all
  have a: "(\<exists>ws. compute_work_size cfg rtile ms = Inr ws) \<or>
          \<not> WORK_STEALING cfg \<and> fixed_allocation_samples cfg rtile ms = 0 \<and>
          compute_work_size cfg rtile ms = Inl (Assertion_failed Num_parallel_samples_nonzero)"
  proof (cases "WORK_STEALING cfg")
    case True
    then show ?thesis
      using assms(1,2,5,6) rng dr
        compute_work_size_area_stealing
          [OF True assms(1,2,5,6,7,8) _ _ rng] assms(12)
      unfolding compute_work_size_def Let_def by simp
  next
    case False
    have g: "round_up_local (sint (tile_h rtile)) (SPLIT_KERNEL_LOCAL_SIZE_Y cfg) \<noteq> 0"
      using round_up_local_multiple [OF assms(2) assms(8) assms(4) lt(2)] assms(8) by simp
    have w: "to_uint (sint (tile_w rtile)) \<noteq> 0"
      using assms(7) sint_ranges(1) [of "tile_w rtile"] by (simp add: to_uint_id)
    show ?thesis
      using False assms(1,2,5,6) rng dr g w
        compute_work_size_area_fixed [OF assms(11) g rng]
      unfolding compute_work_size_def Let_def by simp
  qed
  have b: "int (global_size_0 ws * global_size_1 ws) \<le> sint (x ms) * sint (y ms)"
    if r: "compute_work_size cfg rtile ms = Inr ws" for ws
  proof -
    have p: "0 \<le> sint (x ms) * sint (y ms)" "sint (x ms) * sint (y ms) < 2 ^ 64"
      using rng assms(9,10) unfolding in_int_range_def INT_MAX_def by simp_all
    have le: "(global_size_0 ws * global_size_1 ws) mod 2 ^ 64 \<le> to_size_t (sint (x ms) * sint (y ms))"
      using r unfolding compute_work_size_def Let_def by (auto split: if_splits)
    have "global_size_0 ws * global_size_1 ws < 2 ^ 64"
    proof (cases "WORK_STEALING cfg")
      case True
      have lt: "sint (x ms) < 2 ^ 63" "sint (y ms) < 2 ^ 63"
        using sint_ranges(1) [of "x ms"] sint_ranges(1) [of "y ms"] by simp_all
      have g0: "global_size_0 ws \<le> nat (sint (x ms))"
        using r True assms round_up_local_fits(1) [OF assms(1) assms(7) _ assms(5) lt(1)]
        unfolding compute_work_size_def Let_def by (auto split: if_splits)
      have g1: "global_size_1 ws \<le> nat (sint (y ms))"
        using r True assms round_up_local_fits(1) [OF assms(2) assms(8) _ assms(6) lt(2)]
        unfolding compute_work_size_def Let_def by (auto split: if_splits)
      have "global_size_0 ws * global_size_1 ws \<le> nat (sint (x ms)) * nat (sint (y ms))"
        using g0 g1 by (rule mult_le_mono)
      also have "\<dots> = nat (sint (x ms) * sint (y ms))"
        using assms(9,10) by (simp add: nat_mult_distrib)
      also have "\<dots> < 2 ^ 64" using p by (simp add: nat_less_iff)
      finally show ?thesis .
    next
      case False
      define gs1 where "gs1 = round_up_local (sint (tile_h rtile)) (SPLIT_KERNEL_LOCAL_SIZE_Y cfg)"
      have gs: "global_size_1 ws = gs1" "gs1 \<noteq> 0"
        "global_size_0 ws =
           (to_uint (sint (tile_w rtile)) * fixed_allocation_samples cfg rtile ms) mod 2 ^ 32"
        using r False unfolding compute_work_size_def Let_def gs1_def
        by (auto split: if_splits)
      have "fixed_allocation_samples cfg rtile ms
            \<le> raw_parallel_samples (to_uint (sint (x ms) * sint (y ms))) gs1
                 (sint (tile_w rtile)) (sint (num_samples rtile))"
        unfolding fixed_allocation_samples_def raw_samples_def Let_def gs1_def
        by (rule round_to_wavefront_le)
      from fixed_area [OF assms(11) _ this] gs
      have "global_size_0 ws * global_size_1 ws \<le> to_uint (sint (x ms) * sint (y ms))" by simp
      also have "\<dots> < 2 ^ 64" by (simp add: to_uint_def nat_less_iff)
      finally show ?thesis .
    qed
    then have "global_size_0 ws * global_size_1 ws \<le> nat (sint (x ms) * sint (y ms))"
      using le p by (simp add: to_size_t_id)
    then show ?thesis using p by linarith
  qed
  from a b show ?thesis by blast
qed

text \<open>
  The theorem at the tile of 64 by 64 with 16 samples and a maximum feasible
  tile size of 128 by 64, in both strategies.
\<close>

theorem dispatch_area_within_max_feasible_witness:
  "0 < SPLIT_KERNEL_LOCAL_SIZE_X work_stealing_config \<and>
   0 < SPLIT_KERNEL_LOCAL_SIZE_Y work_stealing_config \<and>
   WORK_STEALING work_stealing_config \<and> \<not> WORK_STEALING fixed_allocation_config \<and>
   sint (x \<lparr>x = 128, y = 64\<rparr>) * sint (y \<lparr>x = 128, y = 64\<rparr>) \<le> INT_MAX \<and>
   compute_work_size work_stealing_config
     \<lparr>tile_w = 64, tile_h = 64, num_samples = 16\<rparr> \<lparr>x = 128, y = 64\<rparr> =
     Inr \<lparr>global_size_0 = 64, global_size_1 = 64, num_parallel_samples = 1\<rparr> \<and>
   int (global_size_0 \<lparr>global_size_0 = 64, global_size_1 = 64, num_parallel_samples = 1\<rparr> *
        global_size_1 \<lparr>global_size_0 = 64, global_size_1 = 64, num_parallel_samples = 1\<rparr>)
     \<le> sint (x \<lparr>x = 128, y = 64\<rparr>) * sint (y \<lparr>x = 128, y = 64\<rparr>) \<and>
   compute_work_size fixed_allocation_config
     \<lparr>tile_w = 64, tile_h = 64, num_samples = 16\<rparr> \<lparr>x = 128, y = 64\<rparr> =
     Inr \<lparr>global_size_0 = 128, global_size_1 = 64, num_parallel_samples = 2\<rparr> \<and>
   int (global_size_0 \<lparr>global_size_0 = 128, global_size_1 = 64, num_parallel_samples = 2\<rparr> *
        global_size_1 \<lparr>global_size_0 = 128, global_size_1 = 64, num_parallel_samples = 2\<rparr>)
     \<le> sint (x \<lparr>x = 128, y = 64\<rparr>) * sint (y \<lparr>x = 128, y = 64\<rparr>)"
  using dispatch_area_within_max_feasible
      [of work_stealing_config "\<lparr>tile_w = 64, tile_h = 64, num_samples = 16\<rparr>"
          "\<lparr>x = 128, y = 64\<rparr>"]
    dispatch_area_within_max_feasible
      [of fixed_allocation_config "\<lparr>tile_w = 64, tile_h = 64, num_samples = 16\<rparr>"
          "\<lparr>x = 128, y = 64\<rparr>"]
  by (simp add: sizing_eval)

section \<open>The path-iteration loop\<close>

subsection \<open>Induction on the loop\<close>

lemma path_iteration_loop_induct [consumes 1, case_names Error Return_false Leave_loop Next_pass]:
  assumes run: "path_iteration_loop cfg dev gs ls l s = Some r"
    and err: "\<And>l s e. path_iteration_pass cfg dev gs ls l s = Inl e \<Longrightarrow> P l s (Inl e)"
    and ret: "\<And>l s l' s'. path_iteration_pass cfg dev gs ls l s = Inr (Return_false, l', s')
                \<Longrightarrow> P l s (Inr (False, l', s'))"
    and leave: "\<And>l s l' s'. path_iteration_pass cfg dev gs ls l s = Inr (Leave_loop, l', s')
                \<Longrightarrow> P l s (Inr (True, l', s'))"
    and step: "\<And>l s l' s' r. path_iteration_pass cfg dev gs ls l s = Inr (Next_pass, l', s')
                \<Longrightarrow> P l' s' r \<Longrightarrow> P l s r"
  shows "P l s r"
proof -
  define Q where
    "Q = (\<lambda>c d g l0 l s r. c = cfg \<longrightarrow> d = dev \<longrightarrow> g = gs \<longrightarrow> l0 = ls \<longrightarrow> P l s r)"
  have "Q cfg dev gs ls l s r"
  proof (rule path_iteration_loop.raw_induct [where P = Q, OF _ run])
    fix loop :: "config \<Rightarrow> ('a, 'b) device \<Rightarrow> nat \<times> nat \<Rightarrow> nat \<times> nat \<Rightarrow> locals \<Rightarrow> ('a, 'b) state
                   \<Rightarrow> (error + bool \<times> locals \<times> ('a, 'b) state) option"
    fix c d g l0 l s r
    assume ih: "\<And>c d g l0 l s r. loop c d g l0 l s = Some r \<Longrightarrow> Q c d g l0 l s r"
      and body: "(case path_iteration_pass c d g l0 l s of
                    Inl e \<Rightarrow> Some (Inl e)
                  | Inr (Return_false, l', s') \<Rightarrow> Some (Inr (False, l', s'))
                  | Inr (Leave_loop, l', s') \<Rightarrow> Some (Inr (True, l', s'))
                  | Inr (Next_pass, l', s') \<Rightarrow> loop c d g l0 l' s') = Some r"
    show "Q c d g l0 l s r"
      unfolding Q_def
    proof (intro impI)
      assume eq: "c = cfg" "d = dev" "g = gs" "l0 = ls"
      show "P l s r"
      proof (cases "path_iteration_pass cfg dev gs ls l s")
        case (Inl e)
        then show ?thesis using body err [OF Inl] by (simp add: eq)
      next
        case (Inr t)
        obtain k l' s' where t: "t = (k, l', s')" by (cases t)
        show ?thesis
        proof (cases k)
          case Return_false
          then show ?thesis using body Inr t ret [of l s l' s'] by (simp add: eq)
        next
          case Leave_loop
          then show ?thesis using body Inr t leave [of l s l' s'] by (simp add: eq)
        next
          case Next_pass
          then have "loop cfg dev gs ls l' s' = Some r" using body Inr t by (simp add: eq)
          from ih [OF this] have "P l' s' r" by (simp add: Q_def)
          then show ?thesis using step [of l s l' s' r] Inr t Next_pass by simp
        qed
      qed
    qed
  qed
  then show ?thesis by (simp add: Q_def)
qed

lemma path_iteration_loop_after_passes:
  assumes "after_passes cfg dev gs ls n l0 s0 = Some (l, s)"
  shows "path_iteration_loop cfg dev gs ls l0 s0 = path_iteration_loop cfg dev gs ls l s"
  using assms
proof (induction n arbitrary: l0 s0)
  case 0
  then show ?case by simp
next
  case (Suc n)
  from Suc.prems obtain l1 s1 where
    p: "path_iteration_pass cfg dev gs ls l0 s0 = Inr (Next_pass, l1, s1)"
    and a: "after_passes cfg dev gs ls n l1 s1 = Some (l, s)"
    by (auto split: sum.splits control.splits)
  have "path_iteration_loop cfg dev gs ls l0 s0 = path_iteration_loop cfg dev gs ls l1 s1"
    by (subst path_iteration_loop.simps) (simp add: p)
  then show ?case using Suc.IH [OF a] by simp
qed

lemma path_iteration_loop_returns:
  assumes "after_passes cfg dev gs ls n l0 s0 = Some (l, s)"
    and "path_iteration_pass cfg dev gs ls l s = Inr (c, l', s')"
    and "c \<noteq> Next_pass"
  shows "path_iteration_loop cfg dev gs ls l0 s0 = Some (Inr (c = Leave_loop, l', s'))"
proof -
  have "path_iteration_loop cfg dev gs ls l s = Some (Inr (c = Leave_loop, l', s'))"
    using assms(2,3) by (subst path_iteration_loop.simps) (cases c; simp)
  then show ?thesis using path_iteration_loop_after_passes [OF assms(1)] by simp
qed

subsection \<open>What the enqueues, the polls and the read-back change\<close>

lemma ENQUEUE_SPLIT_KERNEL_Inr:
  assumes "ENQUEUE_SPLIT_KERNEL dev name dims s = Inr (ok, s')"
  shows "trace s' = trace s @ [Enqueue name dims ok]" "same_members s s'"
    "path_iteration_times s' = path_iteration_times s" "ray_state s' = ray_state s"
  using assms
  by (auto simp: ENQUEUE_SPLIT_KERNEL_def same_members_def split: option.splits prod.splits)

lemma poll_cancel_result:
  assumes "poll_cancel dev s = (c, s')"
  shows "trace s' = trace s @ [Get_cancel c]" "same_members s s'"
    "path_iteration_times s' = path_iteration_times s" "ray_state s' = ray_state s"
    "c = fst (get_cancel dev (world s))" "world s' = snd (get_cancel dev (world s))"
  using assms by (auto simp: poll_cancel_def same_members_def split: prod.splits)

lemma copy_ray_state_result:
  "trace (copy_ray_state dev n s) = trace s @ [Mem_copy_from Ray_state n]"
  "same_members s (copy_ray_state dev n s)"
  "path_iteration_times (copy_ray_state dev n s) = path_iteration_times s"
  "n \<le> length (ray_state s) \<Longrightarrow> length (ray_state (copy_ray_state dev n s)) = length (ray_state s)"
  "world (copy_ray_state dev n s) = snd (mem_copy_from dev n (world s))"
  by (auto simp: copy_ray_state_def same_members_def split: prod.splits)

lemma same_members_refl [simp]: "same_members s s"
  by (simp add: same_members_def)

lemma same_members_trans: "same_members s s1 \<Longrightarrow> same_members s1 s2 \<Longrightarrow> same_members s s2"
  by (simp add: same_members_def)

lemma enqueue_kernels_True:
  assumes "enqueue_kernels dev ks s = Inr (True, s')"
  shows "trace s' = trace s @ round_events ks \<and> same_members s s' \<and>
         path_iteration_times s' = path_iteration_times s \<and> ray_state s' = ray_state s"
  using assms
proof (induction ks arbitrary: s)
  case Nil
  then show ?case by (simp add: round_events_def)
next
  case (Cons k ks)
  obtain name dims where k: "k = (name, dims)" by (cases k)
  from Cons.prems obtain s1 where
    e: "ENQUEUE_SPLIT_KERNEL dev name dims s = Inr (True, s1)"
    and r: "enqueue_kernels dev ks s1 = Inr (True, s')"
    by (auto simp: k split: sum.splits if_splits)
  from Cons.IH [OF r] ENQUEUE_SPLIT_KERNEL_Inr [OF e] show ?case
    by (auto simp: round_events_def k intro: same_members_trans)
qed

lemma enqueue_kernels_False:
  assumes "enqueue_kernels dev ks s = Inr (False, s')"
  shows "\<exists>j<length ks. trace s' = trace s @ failed_round_events ks j \<and> same_members s s' \<and>
         path_iteration_times s' = path_iteration_times s \<and> ray_state s' = ray_state s"
  using assms
proof (induction ks arbitrary: s)
  case Nil
  then show ?case by simp
next
  case (Cons k ks)
  obtain name dims where k: "k = (name, dims)" by (cases k)
  from Cons.prems obtain ok s1 where
    e: "ENQUEUE_SPLIT_KERNEL dev name dims s = Inr (ok, s1)"
    by (auto simp: k split: sum.splits)
  show ?case
  proof (cases ok)
    case False
    then have "s' = s1" using Cons.prems e by (simp add: k)
    then have "trace s' = trace s @ failed_round_events (k # ks) 0 \<and> same_members s s' \<and>
         path_iteration_times s' = path_iteration_times s \<and> ray_state s' = ray_state s"
      using ENQUEUE_SPLIT_KERNEL_Inr [OF e] False
      by (simp add: failed_round_events_def round_events_def k)
    then show ?thesis by blast
  next
    case True
    then have r: "enqueue_kernels dev ks s1 = Inr (False, s')" using Cons.prems e by (simp add: k)
    from Cons.IH [OF r] obtain j where j: "j < length ks"
      "trace s' = trace s1 @ failed_round_events ks j" "same_members s1 s'"
      "path_iteration_times s' = path_iteration_times s1" "ray_state s' = ray_state s1"
      by blast
    have "trace s' = trace s @ failed_round_events (k # ks) (Suc j) \<and> same_members s s' \<and>
         path_iteration_times s' = path_iteration_times s \<and> ray_state s' = ray_state s"
      using j ENQUEUE_SPLIT_KERNEL_Inr [OF e] True
      by (auto simp: failed_round_events_def round_events_def k intro: same_members_trans)
    then show ?thesis using j(1) by (intro exI [of _ "Suc j"]) simp
  qed
qed

lemma batch_events_Cons: "batch_events ks (c # cs) = round_events ks @ Get_cancel c # batch_events ks cs"
  by (simp add: batch_events_def)

lemma batch_events_Nil [simp]: "batch_events ks [] = []"
  by (simp add: batch_events_def)

lemma path_iterations_True:
  assumes "path_iterations dev ks n l s = Inr (True, l', s')"
  shows "\<exists>cs. trace s' = trace s @ batch_events ks cs \<and> same_members s s' \<and>
           path_iteration_times s' = path_iteration_times s \<and> ray_state s' = ray_state s \<and>
           (cs = replicate n False \<and> l' = l \<or>
            (\<exists>j<n. cs = replicate j False @ [True] \<and> l' = l\<lparr>canceled := True\<rparr> \<and>
               (\<exists>w. fst (get_cancel dev w) \<and> world s' = snd (get_cancel dev w))))"
  using assms
proof (induction n arbitrary: s)
  case 0
  then have "s' = s" "l' = l" by simp_all
  then show ?case by (intro exI [of _ "[]"]) simp
next
  case (Suc n)
  from Suc.prems obtain s1 where e: "enqueue_kernels dev ks s = Inr (True, s1)"
    by (auto split: sum.splits if_splits prod.splits)
  obtain c s2 where p: "poll_cancel dev s1 = (c, s2)" by (cases "poll_cancel dev s1")
  note e' = enqueue_kernels_True [OF e]
  note p' = poll_cancel_result [OF p]
  show ?case
  proof (cases c)
    case True
    then have r: "s' = s2" "l' = l\<lparr>canceled := True\<rparr>" using Suc.prems e p by simp_all
    have "trace s' = trace s @ batch_events ks [True]"
      using e' p' r True by (simp add: batch_events_def)
    moreover have "same_members s s'" using e' p' r by (auto intro: same_members_trans)
    moreover have "\<exists>w. fst (get_cancel dev w) \<and> world s' = snd (get_cancel dev w)"
      using p'(5,6) True r by blast
    ultimately show ?thesis
      using e' p' r by (intro exI [of _ "[True]"]) (auto intro!: exI [of _ 0])
  next
    case False
    then have r: "path_iterations dev ks n l s2 = Inr (True, l', s')"
      using Suc.prems e p by simp
    from Suc.IH [OF r] obtain cs where cs:
      "trace s' = trace s2 @ batch_events ks cs" "same_members s2 s'"
      "path_iteration_times s' = path_iteration_times s2" "ray_state s' = ray_state s2"
      "cs = replicate n False \<and> l' = l \<or>
       (\<exists>j<n. cs = replicate j False @ [True] \<and> l' = l\<lparr>canceled := True\<rparr> \<and>
          (\<exists>w. fst (get_cancel dev w) \<and> world s' = snd (get_cancel dev w)))"
      by blast
    have t: "trace s' = trace s @ batch_events ks (False # cs)"
      using cs(1) e' p' False by (simp add: batch_events_Cons)
    have m: "same_members s s'" using e' p' cs(2) by (auto intro: same_members_trans)
    have "False # cs = replicate (Suc n) False \<and> l' = l \<or>
       (\<exists>j<Suc n. False # cs = replicate j False @ [True] \<and> l' = l\<lparr>canceled := True\<rparr> \<and>
          (\<exists>w. fst (get_cancel dev w) \<and> world s' = snd (get_cancel dev w)))"
      using cs(5)
    proof
      assume "cs = replicate n False \<and> l' = l"
      then show ?thesis by simp
    next
      assume "\<exists>j<n. cs = replicate j False @ [True] \<and> l' = l\<lparr>canceled := True\<rparr> \<and>
          (\<exists>w. fst (get_cancel dev w) \<and> world s' = snd (get_cancel dev w))"
      then obtain j where "j < n" "cs = replicate j False @ [True]" "l' = l\<lparr>canceled := True\<rparr>"
        "\<exists>w. fst (get_cancel dev w) \<and> world s' = snd (get_cancel dev w)" by blast
      then have "Suc j < Suc n \<and> False # cs = replicate (Suc j) False @ [True] \<and>
        l' = l\<lparr>canceled := True\<rparr> \<and>
        (\<exists>w. fst (get_cancel dev w) \<and> world s' = snd (get_cancel dev w))" by simp
      then show ?thesis by blast
    qed
    then show ?thesis using t m cs(3,4) e' p' by (intro exI [of _ "False # cs"]) simp
  qed
qed

lemma path_iterations_False:
  assumes "path_iterations dev ks n l s = Inr (False, l', s')"
  shows "\<exists>m j. m < n \<and> j < length ks \<and>
           trace s' = trace s @ batch_events ks (replicate m False) @ failed_round_events ks j \<and>
           same_members s s' \<and> path_iteration_times s' = path_iteration_times s \<and>
           ray_state s' = ray_state s \<and> l' = l"
  using assms
proof (induction n arbitrary: s)
  case 0
  then show ?case by simp
next
  case (Suc n)
  from Suc.prems obtain ok s1 where e: "enqueue_kernels dev ks s = Inr (ok, s1)"
    by (auto split: sum.splits)
  show ?case
  proof (cases ok)
    case False
    then have r: "s' = s1" "l' = l" using Suc.prems e by simp_all
    have e0: "enqueue_kernels dev ks s = Inr (False, s1)" using e False by simp
    from enqueue_kernels_False [OF e0] obtain j where
      "j < length ks" "trace s1 = trace s @ failed_round_events ks j" "same_members s s1"
      "path_iteration_times s1 = path_iteration_times s" "ray_state s1 = ray_state s" by blast
    then have "0 < Suc n \<and> j < length ks \<and>
           trace s' = trace s @ batch_events ks (replicate 0 False) @ failed_round_events ks j \<and>
           same_members s s' \<and> path_iteration_times s' = path_iteration_times s \<and>
           ray_state s' = ray_state s \<and> l' = l" using r by simp
    then show ?thesis by blast
  next
    case True
    obtain c s2 where p: "poll_cancel dev s1 = (c, s2)" by (cases "poll_cancel dev s1")
    have e1: "enqueue_kernels dev ks s = Inr (True, s1)" using e True by simp
    note e' = enqueue_kernels_True [OF e1]
    note p' = poll_cancel_result [OF p]
    have c: "\<not> c" using Suc.prems e p True by (auto split: if_splits)
    then have r: "path_iterations dev ks n l s2 = Inr (False, l', s')"
      using Suc.prems e p True by simp
    from Suc.IH [OF r] obtain m j where mj: "m < n" "j < length ks"
      "trace s' = trace s2 @ batch_events ks (replicate m False) @ failed_round_events ks j"
      "same_members s2 s'" "path_iteration_times s' = path_iteration_times s2"
      "ray_state s' = ray_state s2" "l' = l" by blast
    have "Suc m < Suc n \<and> j < length ks \<and>
           trace s' = trace s @ batch_events ks (replicate (Suc m) False) @ failed_round_events ks j \<and>
           same_members s s' \<and> path_iteration_times s' = path_iteration_times s \<and>
           ray_state s' = ray_state s \<and> l' = l"
      using mj e' p' c by (auto simp: batch_events_Cons intro: same_members_trans)
    then show ?thesis by blast
  qed
qed

subsection \<open>One pass of the loop\<close>

lemma path_iteration_pass_Return_false:
  assumes "path_iteration_pass cfg dev gs ls l s = Inr (Return_false, l', s')"
  shows "path_iterations dev (path_iteration_kernels gs ls) (unat (path_iteration_times s)) l s
         = Inr (False, l', s')"
  using assms unfolding path_iteration_pass_def Let_def
  by (auto split: sum.splits prod.splits if_splits)

lemma path_iteration_pass_synced:
  assumes "path_iteration_pass cfg dev gs ls l s = Inr (c, l', s')" and "c \<noteq> Return_false"
  shows "\<exists>l1 s1 cp.
           path_iterations dev (path_iteration_kernels gs ls) (unat (path_iteration_times s)) l s
             = Inr (True, l1, s1) \<and>
           (fst gs * snd gs) mod 2 ^ 64 \<le> length (ray_state s1) \<and>
           (if active_rays_available cfg ((fst gs * snd gs) mod 2 ^ 64)
                 (ray_state (copy_ray_state dev ((fst gs * snd gs) mod 2 ^ 64) s1))
            then poll_cancel dev
                   ((copy_ray_state dev ((fst gs * snd gs) mod 2 ^ 64) s1)
                      \<lparr>path_iteration_times := PATH_ITER_INC_FACTOR cfg\<rparr>) = (cp, s') \<and>
                 l' = l1\<lparr>numHostIntervention := numHostIntervention l1 + 1,
                         numNextPathIterTimes := numNextPathIterTimes l1 + PATH_ITER_INC_FACTOR cfg,
                         canceled := cp \<or> canceled l1\<rparr> \<and>
                 c = (if cp then Leave_loop else Next_pass)
            else poll_cancel dev (copy_ray_state dev ((fst gs * snd gs) mod 2 ^ 64) s1) = (cp, s') \<and>
                 l' = l1\<lparr>canceled := cp \<or> canceled l1\<rparr> \<and> c = Leave_loop)"
  using assms unfolding path_iteration_pass_def Let_def
  by (auto split: sum.splits prod.splits if_splits)

lemma pass_event_round_events:
  "list_all pass_event (round_events (path_iteration_kernels gs ls))"
  by (simp add: round_events_def path_iteration_kernels_def Let_def)

lemma no_failure_round_events: "\<not> list_ex failed_dispatch (round_events ks)"
  by (induction ks) (auto simp: round_events_def)

lemma pass_event_batch_events:
  "list_all pass_event (batch_events (path_iteration_kernels gs ls) cs)"
  by (induction cs) (simp_all add: batch_events_Cons pass_event_round_events)

lemma no_failure_batch_events: "\<not> list_ex failed_dispatch (batch_events ks cs)"
  by (induction cs) (simp_all add: batch_events_Cons no_failure_round_events)

lemma pass_event_failed_round_events:
  assumes "j < length (path_iteration_kernels gs ls)"
  shows "list_all pass_event (failed_round_events (path_iteration_kernels gs ls) j)"
proof -
  have "list_all pass_event (round_events (take j (path_iteration_kernels gs ls)))"
    using pass_event_round_events [of gs ls]
    by (simp add: round_events_def list_all_iff) (meson in_set_takeD)
  moreover have "fst (path_iteration_kernels gs ls ! j) \<noteq> Sum_all_radiance"
  proof -
    have "\<forall>k \<in> set (path_iteration_kernels gs ls). fst k \<noteq> Sum_all_radiance"
      by (simp add: path_iteration_kernels_def Let_def)
    then show ?thesis using assms nth_mem by blast
  qed
  ultimately show ?thesis by (simp add: failed_round_events_def)
qed

text \<open>The log of a call so far: no failed dispatch, or exactly one, at the end.\<close>

lemma failed_round_events_shape:
  "failed_round_events ks j \<noteq> [] \<and> failed_dispatch (last (failed_round_events ks j)) \<and>
   \<not> list_ex failed_dispatch (butlast (failed_round_events ks j))"
  by (simp add: failed_round_events_def no_failure_round_events)

lemma path_iteration_pass_summary:
  assumes "path_iteration_pass cfg dev gs ls l s = Inr (c, l', s')"
  shows "\<exists>evs. trace s' = trace s @ evs \<and> list_all pass_event evs \<and> same_members s s' \<and>
           length (ray_state s') = length (ray_state s) \<and>
           (if c = Return_false
            then evs \<noteq> [] \<and> failed_dispatch (last evs) \<and> \<not> list_ex failed_dispatch (butlast evs)
            else \<not> list_ex failed_dispatch evs)"
proof (cases "c = Return_false")
  case True
  define ks where "ks = path_iteration_kernels gs ls"
  from path_iteration_pass_Return_false [OF assms [unfolded True]]
  have "path_iterations dev ks (unat (path_iteration_times s)) l s = Inr (False, l', s')"
    by (simp add: ks_def)
  from path_iterations_False [OF this] obtain m j where mj: "j < length ks"
    "trace s' = trace s @ batch_events ks (replicate m False) @ failed_round_events ks j"
    "same_members s s'" "ray_state s' = ray_state s" by blast
  define evs where "evs = batch_events ks (replicate m False) @ failed_round_events ks j"
  have ne: "failed_round_events ks j \<noteq> []" using failed_round_events_shape by blast
  have "list_all pass_event evs"
    unfolding evs_def ks_def
    using pass_event_batch_events pass_event_failed_round_events mj(1) [unfolded ks_def] by simp
  moreover have "evs \<noteq> []" unfolding evs_def using ne by simp
  moreover have "failed_dispatch (last evs)"
    unfolding evs_def using ne failed_round_events_shape by simp
  moreover have "\<not> list_ex failed_dispatch (butlast evs)"
    unfolding evs_def using ne failed_round_events_shape [of ks j] no_failure_batch_events [of ks]
    by (simp add: butlast_append)
  ultimately show ?thesis
    using True mj unfolding evs_def [symmetric] by (intro exI [of _ evs]) simp
next
  case False
  define ks where "ks = path_iteration_kernels gs ls"
  define n where "n = (fst gs * snd gs) mod 2 ^ 64"
  from path_iteration_pass_synced [OF assms False] obtain l1 s1 cp s3 where
    b: "path_iterations dev ks (unat (path_iteration_times s)) l s = Inr (True, l1, s1)"
    and len: "n \<le> length (ray_state s1)"
    and p: "poll_cancel dev s3 = (cp, s')"
    and s3: "s3 = copy_ray_state dev n s1 \<or>
             s3 = (copy_ray_state dev n s1)\<lparr>path_iteration_times := PATH_ITER_INC_FACTOR cfg\<rparr>"
    unfolding ks_def n_def by (auto split: if_splits)
  from path_iterations_True [OF b] obtain cs where cs:
    "trace s1 = trace s @ batch_events ks cs" "same_members s s1" "ray_state s1 = ray_state s"
    by blast
  note c' = copy_ray_state_result [where dev = dev and n = n and s = s1]
  note p' = poll_cancel_result [OF p]
  define evs where "evs = batch_events ks cs @ [Mem_copy_from Ray_state n, Get_cancel cp]"
  have t3: "trace s3 = trace s1 @ [Mem_copy_from Ray_state n]" using s3 c'(1) by auto
  have m3: "same_members s1 s3" using s3 c'(2) by (auto simp: same_members_def)
  have r3: "length (ray_state s3) = length (ray_state s1)" using s3 c'(4) [OF len] by auto
  have "trace s' = trace s @ evs" using p'(1) t3 cs(1) by (simp add: evs_def)
  moreover have "list_all pass_event evs"
    unfolding evs_def ks_def using pass_event_batch_events by simp
  moreover have "same_members s s'"
    using cs(2) m3 p'(2) by (blast intro: same_members_trans)
  moreover have "length (ray_state s') = length (ray_state s)" using p'(4) r3 cs(3) by simp
  moreover have "\<not> list_ex failed_dispatch evs"
    unfolding evs_def using no_failure_batch_events [of ks cs] by simp
  ultimately show ?thesis using False by (intro exI [of _ evs]) simp
qed

lemma path_iteration_pass_budget:
  assumes "path_iteration_pass cfg dev gs ls l s = Inr (c, l', s')"
  shows "numHostIntervention l' = numHostIntervention l \<and>
         numNextPathIterTimes l' = numNextPathIterTimes l \<and>
         path_iteration_times s' = path_iteration_times s \<and> c \<noteq> Next_pass \<or>
         numHostIntervention l' = numHostIntervention l + 1 \<and>
         numNextPathIterTimes l' = numNextPathIterTimes l + PATH_ITER_INC_FACTOR cfg \<and>
         path_iteration_times s' = PATH_ITER_INC_FACTOR cfg \<and> c \<noteq> Return_false"
proof (cases "c = Return_false")
  case True
  from path_iteration_pass_Return_false [OF assms [unfolded True]]
  show ?thesis using path_iterations_False True by blast
next
  case False
  define ks where "ks = path_iteration_kernels gs ls"
  define n where "n = (fst gs * snd gs) mod 2 ^ 64"
  from path_iteration_pass_synced [OF assms False] obtain l1 s1 cp where
    b: "path_iterations dev ks (unat (path_iteration_times s)) l s = Inr (True, l1, s1)"
    and r: "if active_rays_available cfg n (ray_state (copy_ray_state dev n s1))
            then poll_cancel dev
                   ((copy_ray_state dev n s1)\<lparr>path_iteration_times := PATH_ITER_INC_FACTOR cfg\<rparr>)
                 = (cp, s') \<and>
                 l' = l1\<lparr>numHostIntervention := numHostIntervention l1 + 1,
                         numNextPathIterTimes := numNextPathIterTimes l1 + PATH_ITER_INC_FACTOR cfg,
                         canceled := cp \<or> canceled l1\<rparr> \<and>
                 c = (if cp then Leave_loop else Next_pass)
            else poll_cancel dev (copy_ray_state dev n s1) = (cp, s') \<and>
                 l' = l1\<lparr>canceled := cp \<or> canceled l1\<rparr> \<and> c = Leave_loop"
    unfolding ks_def n_def by blast
  from path_iterations_True [OF b] have l1:
    "path_iteration_times s1 = path_iteration_times s"
    "numHostIntervention l1 = numHostIntervention l"
    "numNextPathIterTimes l1 = numNextPathIterTimes l" by auto
  show ?thesis
  proof (cases "active_rays_available cfg n (ray_state (copy_ray_state dev n s1))")
    case True
    then have "poll_cancel dev
                 ((copy_ray_state dev n s1)\<lparr>path_iteration_times := PATH_ITER_INC_FACTOR cfg\<rparr>)
               = (cp, s')"
      and l': "l' = l1\<lparr>numHostIntervention := numHostIntervention l1 + 1,
                         numNextPathIterTimes := numNextPathIterTimes l1 + PATH_ITER_INC_FACTOR cfg,
                         canceled := cp \<or> canceled l1\<rparr>"
      using r by simp_all
    from poll_cancel_result(3) [OF this(1)] l' l1 False show ?thesis by simp
  next
    case act: False
    then have "poll_cancel dev (copy_ray_state dev n s1) = (cp, s')"
      and l': "l' = l1\<lparr>canceled := cp \<or> canceled l1\<rparr>" and "c = Leave_loop"
      using r by simp_all
    from poll_cancel_result(3) [OF this(1)] l' l1 this(3) copy_ray_state_result(3) [where dev = dev and n = n and s = s1]
    show ?thesis by simp
  qed
qed

lemma path_iteration_pass_rays:
  assumes "path_iteration_pass cfg dev gs ls l s = Inr (Leave_loop, l', s')" and "\<not> canceled l'"
  shows "\<not> active_rays_available cfg ((fst gs * snd gs) mod 2 ^ 64) (ray_state s') \<and>
         (fst gs * snd gs) mod 2 ^ 64 \<le> length (ray_state s')"
proof -
  define n where "n = (fst gs * snd gs) mod 2 ^ 64"
  from path_iteration_pass_synced [OF assms(1)] obtain l1 s1 cp where
    len: "n \<le> length (ray_state s1)"
    and r: "if active_rays_available cfg n (ray_state (copy_ray_state dev n s1))
            then poll_cancel dev
                   ((copy_ray_state dev n s1)\<lparr>path_iteration_times := PATH_ITER_INC_FACTOR cfg\<rparr>)
                 = (cp, s') \<and>
                 l' = l1\<lparr>numHostIntervention := numHostIntervention l1 + 1,
                         numNextPathIterTimes := numNextPathIterTimes l1 + PATH_ITER_INC_FACTOR cfg,
                         canceled := cp \<or> canceled l1\<rparr> \<and>
                 Leave_loop = (if cp then Leave_loop else Next_pass)
            else poll_cancel dev (copy_ray_state dev n s1) = (cp, s') \<and>
                 l' = l1\<lparr>canceled := cp \<or> canceled l1\<rparr> \<and> Leave_loop = Leave_loop"
    unfolding n_def by blast
  show ?thesis
  proof (cases "active_rays_available cfg n (ray_state (copy_ray_state dev n s1))")
    case True
    then have "cp" "l' = l1\<lparr>numHostIntervention := numHostIntervention l1 + 1,
                         numNextPathIterTimes := numNextPathIterTimes l1 + PATH_ITER_INC_FACTOR cfg,
                         canceled := cp \<or> canceled l1\<rparr>"
      using r by (auto split: if_splits)
    then have "canceled l'" by simp
    then show ?thesis using assms(2) by simp
  next
    case False
    then have p: "poll_cancel dev (copy_ray_state dev n s1) = (cp, s')" using r by simp
    have "ray_state s' = ray_state (copy_ray_state dev n s1)"
      using poll_cancel_result(4) [OF p] .
    then show ?thesis
      using False copy_ray_state_result(4) [where dev = dev and n = n and s = s1, OF len] len
      unfolding n_def by simp
  qed
qed

lemma path_iteration_pass_canceled:
  assumes "path_iteration_pass cfg dev gs ls l s = Inr (c, l', s')"
  shows "(canceled l \<longrightarrow> canceled l') \<and>
         (c = Return_false \<longrightarrow> canceled l' = canceled l) \<and>
         (c = Next_pass \<and> cancel_is_sticky dev \<and> \<not> canceled l \<longrightarrow> \<not> canceled l')"
proof (cases "c = Return_false")
  case True
  from path_iteration_pass_Return_false [OF assms [unfolded True]]
  show ?thesis using path_iterations_False True by blast
next
  case False
  define ks where "ks = path_iteration_kernels gs ls"
  define n where "n = (fst gs * snd gs) mod 2 ^ 64"
  from path_iteration_pass_synced [OF assms False] obtain l1 s1 cp s3 where
    b: "path_iterations dev ks (unat (path_iteration_times s)) l s = Inr (True, l1, s1)"
    and p: "poll_cancel dev s3 = (cp, s')"
    and w3: "world s3 = world (copy_ray_state dev n s1)"
    and l': "canceled l' = (cp \<or> canceled l1)"
    and c: "c = Next_pass \<longrightarrow> \<not> cp"
    unfolding ks_def n_def by (auto split: if_splits)
  from path_iterations_True [OF b] have l1:
    "l1 = l \<or> l1 = l\<lparr>canceled := True\<rparr> \<and>
       (\<exists>w. fst (get_cancel dev w) \<and> world s1 = snd (get_cancel dev w))"
    by auto
  have a: "canceled l \<longrightarrow> canceled l'" using l1 l' by auto
  have "\<not> canceled l'" if n: "c = Next_pass" and st: "cancel_is_sticky dev" and nc: "\<not> canceled l"
  proof -
    have "l1 = l"
    proof (rule ccontr)
      assume "l1 \<noteq> l"
      then obtain w where w: "fst (get_cancel dev w)" "world s1 = snd (get_cancel dev w)"
        using l1 by blast
      have "world s3 = snd (mem_copy_from dev n (snd (get_cancel dev w)))"
        using w3 w(2) copy_ray_state_result(5) [where dev = dev and n = n and s = s1] by simp
      then have "fst (get_cancel dev (world s3))"
        using st w(1) unfolding cancel_is_sticky_def by simp
      then have cp using poll_cancel_result(5) [OF p] by simp
      then show False using c n by simp
    qed
    then show ?thesis using l' c n nc by simp
  qed
  then show ?thesis using a False by blast
qed

subsection \<open>The whole loop\<close>

lemma path_iteration_loop_summary:
  assumes "path_iteration_loop cfg dev gs ls l s = Some (Inr (r, l', s'))"
  shows "\<exists>evs. trace s' = trace s @ evs \<and> list_all pass_event evs \<and> same_members s s' \<and>
           length (ray_state s') = length (ray_state s) \<and>
           (if r then \<not> list_ex failed_dispatch evs
            else evs \<noteq> [] \<and> failed_dispatch (last evs) \<and>
                 \<not> list_ex failed_dispatch (butlast evs))"
proof -
  define P where "P = (\<lambda>(l :: locals) (s :: ('a, 'b) state) (res :: error + bool \<times> locals \<times> ('a, 'b) state).
    \<forall>r l' s'. res = Inr (r, l', s') \<longrightarrow>
      (\<exists>evs. trace s' = trace s @ evs \<and> list_all pass_event evs \<and> same_members s s' \<and>
           length (ray_state s') = length (ray_state s) \<and>
           (if r then \<not> list_ex failed_dispatch evs
            else evs \<noteq> [] \<and> failed_dispatch (last evs) \<and>
                 \<not> list_ex failed_dispatch (butlast evs))))"
  have "P l s (Inr (r, l', s'))"
    using assms
  proof (induction rule: path_iteration_loop_induct)
    case (Error l s e)
    then show ?case by (simp add: P_def)
  next
    case (Return_false l s l' s')
    from path_iteration_pass_summary [OF this] show ?case by (simp add: P_def)
  next
    case (Leave_loop l s l' s')
    from path_iteration_pass_summary [OF this] show ?case by (simp add: P_def)
  next
    case (Next_pass l s l1 s1 res)
    from path_iteration_pass_summary [OF Next_pass(1)] obtain evs1 where e1:
      "trace s1 = trace s @ evs1" "list_all pass_event evs1" "same_members s s1"
      "length (ray_state s1) = length (ray_state s)" "\<not> list_ex failed_dispatch evs1"
      by auto
    show ?case
      unfolding P_def
    proof (intro allI impI)
      fix r l' s'
      assume "res = Inr (r, l', s')"
      with Next_pass(2) obtain evs2 where e2:
        "trace s' = trace s1 @ evs2" "list_all pass_event evs2" "same_members s1 s'"
        "length (ray_state s') = length (ray_state s1)"
        "if r then \<not> list_ex failed_dispatch evs2
         else evs2 \<noteq> [] \<and> failed_dispatch (last evs2) \<and>
              \<not> list_ex failed_dispatch (butlast evs2)"
        unfolding P_def by blast
      have "trace s' = trace s @ (evs1 @ evs2)" using e1(1) e2(1) by simp
      moreover have "list_all pass_event (evs1 @ evs2)" using e1(2) e2(2) by simp
      moreover have "same_members s s'" using e1(3) e2(3) by (rule same_members_trans)
      moreover have "length (ray_state s') = length (ray_state s)" using e1(4) e2(4) by simp
      moreover have "if r then \<not> list_ex failed_dispatch (evs1 @ evs2)
         else evs1 @ evs2 \<noteq> [] \<and> failed_dispatch (last (evs1 @ evs2)) \<and>
              \<not> list_ex failed_dispatch (butlast (evs1 @ evs2))"
        using e1(5) e2(5) by (auto simp: butlast_append)
      ultimately show "\<exists>evs. trace s' = trace s @ evs \<and> list_all pass_event evs \<and>
           same_members s s' \<and> length (ray_state s') = length (ray_state s) \<and>
           (if r then \<not> list_ex failed_dispatch evs
            else evs \<noteq> [] \<and> failed_dispatch (last evs) \<and>
                 \<not> list_ex failed_dispatch (butlast evs))"
        by blast
    qed
  qed
  then show ?thesis by (simp add: P_def)
qed

lemma path_iteration_loop_budget:
  assumes "path_iteration_loop cfg dev gs ls l s = Some (Inr (r, l', s'))"
  shows "numNextPathIterTimes l' =
           numNextPathIterTimes l +
             (numHostIntervention l' - numHostIntervention l) * PATH_ITER_INC_FACTOR cfg \<and>
         (path_iteration_times s' = path_iteration_times s \<and>
            numHostIntervention l' = numHostIntervention l \<or>
          path_iteration_times s' = PATH_ITER_INC_FACTOR cfg)"
proof -
  define P where "P = (\<lambda>(l :: locals) (s :: ('a, 'b) state) (res :: error + bool \<times> locals \<times> ('a, 'b) state).
    \<forall>r l' s'. res = Inr (r, l', s') \<longrightarrow>
      numNextPathIterTimes l' =
           numNextPathIterTimes l +
             (numHostIntervention l' - numHostIntervention l) * PATH_ITER_INC_FACTOR cfg \<and>
         (path_iteration_times s' = path_iteration_times s \<and>
            numHostIntervention l' = numHostIntervention l \<or>
          path_iteration_times s' = PATH_ITER_INC_FACTOR cfg))"
  have "P l s (Inr (r, l', s'))"
    using assms
  proof (induction rule: path_iteration_loop_induct)
    case (Error l s e)
    then show ?case by (simp add: P_def)
  next
    case (Return_false l s l' s')
    from path_iteration_pass_budget [OF this] show ?case by (auto simp: P_def)
  next
    case (Leave_loop l s l' s')
    from path_iteration_pass_budget [OF this] show ?case by (auto simp: P_def)
  next
    case (Next_pass l s l1 s1 res)
    from path_iteration_pass_budget [OF Next_pass(1)] have b:
      "numHostIntervention l1 = numHostIntervention l + 1"
      "numNextPathIterTimes l1 = numNextPathIterTimes l + PATH_ITER_INC_FACTOR cfg"
      "path_iteration_times s1 = PATH_ITER_INC_FACTOR cfg"
      by auto
    show ?case
      unfolding P_def
    proof (intro allI impI)
      fix r l' s'
      assume "res = Inr (r, l', s')"
      with Next_pass(2) have ih:
        "numNextPathIterTimes l' =
           numNextPathIterTimes l1 +
             (numHostIntervention l' - numHostIntervention l1) * PATH_ITER_INC_FACTOR cfg"
        "path_iteration_times s' = path_iteration_times s1 \<and>
            numHostIntervention l' = numHostIntervention l1 \<or>
          path_iteration_times s' = PATH_ITER_INC_FACTOR cfg"
        unfolding P_def by blast+
      have "numNextPathIterTimes l' =
           numNextPathIterTimes l +
             (numHostIntervention l' - numHostIntervention l) * PATH_ITER_INC_FACTOR cfg"
        unfolding ih(1) b by (simp add: algebra_simps)
      moreover have "path_iteration_times s' = PATH_ITER_INC_FACTOR cfg"
        using ih(2) b(3) by auto
      ultimately show "numNextPathIterTimes l' =
           numNextPathIterTimes l +
             (numHostIntervention l' - numHostIntervention l) * PATH_ITER_INC_FACTOR cfg \<and>
         (path_iteration_times s' = path_iteration_times s \<and>
            numHostIntervention l' = numHostIntervention l \<or>
          path_iteration_times s' = PATH_ITER_INC_FACTOR cfg)" by simp
    qed
  qed
  then show ?thesis by (simp add: P_def)
qed

lemma path_iteration_loop_rays:
  assumes "path_iteration_loop cfg dev gs ls l s = Some (Inr (True, l', s'))" and "\<not> canceled l'"
  shows "\<not> active_rays_available cfg ((fst gs * snd gs) mod 2 ^ 64) (ray_state s') \<and>
         (fst gs * snd gs) mod 2 ^ 64 \<le> length (ray_state s')"
proof -
  define P where "P = (\<lambda>(l :: locals) (s :: ('a, 'b) state) (res :: error + bool \<times> locals \<times> ('a, 'b) state).
    \<forall>l' s'. res = Inr (True, l', s') \<and> \<not> canceled l' \<longrightarrow>
      \<not> active_rays_available cfg ((fst gs * snd gs) mod 2 ^ 64) (ray_state s') \<and>
      (fst gs * snd gs) mod 2 ^ 64 \<le> length (ray_state s'))"
  have "P l s (Inr (True, l', s'))"
    using assms(1)
  proof (induction rule: path_iteration_loop_induct)
    case (Error l s e)
    then show ?case by (simp add: P_def)
  next
    case (Return_false l s l' s')
    then show ?case by (simp add: P_def)
  next
    case (Leave_loop l s l' s')
    show ?case
      unfolding P_def
    proof (intro allI impI)
      fix l2 s2
      assume a: "Inr (True, l', s') = Inr (True, l2, s2) \<and> \<not> canceled l2"
      then have "\<not> canceled l'" "s2 = s'" by simp_all
      with path_iteration_pass_rays [OF Leave_loop this(1)]
      show "\<not> active_rays_available cfg ((fst gs * snd gs) mod 2 ^ 64) (ray_state s2) \<and>
            (fst gs * snd gs) mod 2 ^ 64 \<le> length (ray_state s2)" by simp
    qed
  next
    case (Next_pass l s l1 s1 res)
    then show ?case by (simp add: P_def)
  qed
  then show ?thesis using assms(2) by (simp add: P_def)
qed

lemma path_iteration_loop_canceled:
  assumes "path_iteration_loop cfg dev gs ls l s = Some (Inr (r, l', s'))"
  shows "(canceled l \<longrightarrow> canceled l') \<and>
         (cancel_is_sticky dev \<and> \<not> canceled l \<and> canceled l' \<longrightarrow> r)"
proof -
  define P where "P = (\<lambda>(l :: locals) (s :: ('a, 'b) state) (res :: error + bool \<times> locals \<times> ('a, 'b) state).
    \<forall>r l' s'. res = Inr (r, l', s') \<longrightarrow>
      (canceled l \<longrightarrow> canceled l') \<and>
      (cancel_is_sticky dev \<and> \<not> canceled l \<and> canceled l' \<longrightarrow> r))"
  have "P l s (Inr (r, l', s'))"
    using assms(1)
  proof (induction rule: path_iteration_loop_induct)
    case (Error l s e)
    then show ?case by (simp add: P_def)
  next
    case (Return_false l s l' s')
    from path_iteration_pass_canceled [OF this] show ?case by (simp add: P_def)
  next
    case (Leave_loop l s l' s')
    from path_iteration_pass_canceled [OF this] show ?case by (simp add: P_def)
  next
    case (Next_pass l s l1 s1 res)
    from path_iteration_pass_canceled [OF Next_pass(1)] Next_pass(2) show ?case
      unfolding P_def by blast
  qed
  then show ?thesis by (simp add: P_def)
qed

subsection \<open>The parts of path\_trace around the loop\<close>

lemma alloc_buffer_result:
  "trace (alloc_buffer dev b n s) = trace s @ [Mem_alloc b n]"
  "same_members s (alloc_buffer dev b n s)"
  "path_iteration_times (alloc_buffer dev b n s) = path_iteration_times s"
  "ray_state (alloc_buffer dev b n s) = ray_state s"
  "current_max_closure (alloc_buffer dev b n s) = current_max_closure s"
  by (simp_all add: alloc_buffer_def same_members_def)

lemma allocate_global_memory_result:
  "\<exists>evs. trace (allocate_global_memory cfg dev ms p s) = trace s @ evs \<and> evs \<noteq> [] \<and>
          list_all is_alloc evs \<and>
          map (\<lambda>e. case e of Mem_alloc b n \<Rightarrow> b | _ \<Rightarrow> Split_data) evs =
            (if WORK_STEALING cfg then [Work_pool_wgs] else []) @
            [Queue_index, Use_queues_flag, Kgbuffer, Ray_state, Split_data]"
  "same_members s (allocate_global_memory cfg dev ms p s)"
  "path_iteration_times (allocate_global_memory cfg dev ms p s) = path_iteration_times s"
  "length (ray_state (allocate_global_memory cfg dev ms p s)) =
     to_size_t (sint (x ms) * sint (y ms))"
  unfolding allocate_global_memory_def Let_def
  by (simp_all add: alloc_buffer_result same_members_def resize_def alloc_buffer_def)

lemma data_init_result:
  assumes "data_init dev dims rtile n nps s = (ok, s')"
  shows "trace s' = trace s @ [Enqueue_data_init dims n nps ok]" "same_members s s'"
    "path_iteration_times s' = path_iteration_times s" "ray_state s' = ray_state s"
  using assms by (auto simp: data_init_def same_members_def split: prod.splits)

lemma sum_all_radiance_result:
  assumes "sum_all_radiance dev rtile l s = Inr (ok, s')"
  shows "canceled l \<and> ok \<and> s' = s \<or>
         \<not> canceled l \<and>
         (\<exists>dims. trace s' = trace s @ [Enqueue Sum_all_radiance dims ok]) \<and>
         same_members s s' \<and> path_iteration_times s' = path_iteration_times s \<and>
         ray_state s' = ray_state s"
proof (cases "canceled l")
  case True
  then show ?thesis using assms by (simp add: sum_all_radiance_def)
next
  case False
  then obtain dims where "ENQUEUE_SPLIT_KERNEL dev Sum_all_radiance dims s = Inr (ok, s')"
    using assms by (simp add: sum_all_radiance_def Let_def)
  from ENQUEUE_SPLIT_KERNEL_Inr [OF this] False show ?thesis by blast
qed

lemma finish_tile_result:
  "trace (finish_tile cfg l s) = trace s" "kernels (finish_tile cfg l s) = kernels s"
  "current_max_closure (finish_tile cfg l s) = current_max_closure s"
  "ray_state (finish_tile cfg l s) = ray_state s" "\<not> first_tile (finish_tile cfg l s)"
  "path_iteration_times (finish_tile cfg l s) = next_path_iteration_times cfg l"
  by (simp_all add: finish_tile_def)

lemma path_trace_cases [consumes 1, case_names Init_failed Loop_failed Reduction_failed Done]:
  assumes run: "path_trace cfg dev rtile ms p s = Some (Inr (r, l, s'))"
    and init: "\<And>ws s2.
       compute_work_size cfg rtile ms = Inr ws \<Longrightarrow>
       data_init dev
         (KernelDimensions (global_size_0 ws, global_size_1 ws)
            (SPLIT_KERNEL_LOCAL_SIZE_X cfg, SPLIT_KERNEL_LOCAL_SIZE_Y cfg))
         rtile (sint (x ms) * sint (y ms)) (num_parallel_samples ws)
         (if first_tile s then allocate_global_memory cfg dev ms p s else s) = (False, s2) \<Longrightarrow>
       r = False \<Longrightarrow> s' = s2 \<Longrightarrow>
       l = \<lparr>canceled = False, numHostIntervention = 0,
            numNextPathIterTimes = path_iteration_times s2\<rparr> \<Longrightarrow> thesis"
    and loop: "\<And>ws s2.
       compute_work_size cfg rtile ms = Inr ws \<Longrightarrow>
       data_init dev
         (KernelDimensions (global_size_0 ws, global_size_1 ws)
            (SPLIT_KERNEL_LOCAL_SIZE_X cfg, SPLIT_KERNEL_LOCAL_SIZE_Y cfg))
         rtile (sint (x ms) * sint (y ms)) (num_parallel_samples ws)
         (if first_tile s then allocate_global_memory cfg dev ms p s else s) = (True, s2) \<Longrightarrow>
       path_iteration_loop cfg dev (global_size_0 ws, global_size_1 ws)
         (SPLIT_KERNEL_LOCAL_SIZE_X cfg, SPLIT_KERNEL_LOCAL_SIZE_Y cfg)
         \<lparr>canceled = False, numHostIntervention = 0,
          numNextPathIterTimes = path_iteration_times s2\<rparr> s2 = Some (Inr (False, l, s')) \<Longrightarrow>
       r = False \<Longrightarrow> thesis"
    and red: "\<And>ws s2 s3.
       compute_work_size cfg rtile ms = Inr ws \<Longrightarrow>
       data_init dev
         (KernelDimensions (global_size_0 ws, global_size_1 ws)
            (SPLIT_KERNEL_LOCAL_SIZE_X cfg, SPLIT_KERNEL_LOCAL_SIZE_Y cfg))
         rtile (sint (x ms) * sint (y ms)) (num_parallel_samples ws)
         (if first_tile s then allocate_global_memory cfg dev ms p s else s) = (True, s2) \<Longrightarrow>
       path_iteration_loop cfg dev (global_size_0 ws, global_size_1 ws)
         (SPLIT_KERNEL_LOCAL_SIZE_X cfg, SPLIT_KERNEL_LOCAL_SIZE_Y cfg)
         \<lparr>canceled = False, numHostIntervention = 0,
          numNextPathIterTimes = path_iteration_times s2\<rparr> s2 = Some (Inr (True, l, s3)) \<Longrightarrow>
       sum_all_radiance dev rtile l s3 = Inr (False, s') \<Longrightarrow>
       r = False \<Longrightarrow> thesis"
    and fin: "\<And>ws s2 s3 s4.
       compute_work_size cfg rtile ms = Inr ws \<Longrightarrow>
       data_init dev
         (KernelDimensions (global_size_0 ws, global_size_1 ws)
            (SPLIT_KERNEL_LOCAL_SIZE_X cfg, SPLIT_KERNEL_LOCAL_SIZE_Y cfg))
         rtile (sint (x ms) * sint (y ms)) (num_parallel_samples ws)
         (if first_tile s then allocate_global_memory cfg dev ms p s else s) = (True, s2) \<Longrightarrow>
       path_iteration_loop cfg dev (global_size_0 ws, global_size_1 ws)
         (SPLIT_KERNEL_LOCAL_SIZE_X cfg, SPLIT_KERNEL_LOCAL_SIZE_Y cfg)
         \<lparr>canceled = False, numHostIntervention = 0,
          numNextPathIterTimes = path_iteration_times s2\<rparr> s2 = Some (Inr (True, l, s3)) \<Longrightarrow>
       sum_all_radiance dev rtile l s3 = Inr (True, s4) \<Longrightarrow>
       s' = finish_tile cfg l s4 \<Longrightarrow> r = True \<Longrightarrow> thesis"
  shows thesis
proof -
  obtain ws where ws: "compute_work_size cfg rtile ms = Inr ws"
    using run unfolding path_trace_def by (auto split: sum.splits)
  define s1 where "s1 = (if first_tile s then allocate_global_memory cfg dev ms p s else s)"
  define gs where "gs = (global_size_0 ws, global_size_1 ws)"
  define ls where "ls = (SPLIT_KERNEL_LOCAL_SIZE_X cfg, SPLIT_KERNEL_LOCAL_SIZE_Y cfg)"
  obtain ok s2 where di:
    "data_init dev (KernelDimensions gs ls) rtile (sint (x ms) * sint (y ms))
       (num_parallel_samples ws) s1 = (ok, s2)"
    by (cases "data_init dev (KernelDimensions gs ls) rtile (sint (x ms) * sint (y ms))
       (num_parallel_samples ws) s1")
  define l0 where "l0 = \<lparr>canceled = False, numHostIntervention = 0,
          numNextPathIterTimes = path_iteration_times s2\<rparr>"
  have run': "(if \<not> ok then Some (Inr (False, l0, s2))
              else
                (case path_iteration_loop cfg dev gs ls l0 s2 of
                   None \<Rightarrow> None
                 | Some (Inl e) \<Rightarrow> Some (Inl e)
                 | Some (Inr (ok, l, s3)) \<Rightarrow>
                     if \<not> ok then Some (Inr (False, l, s3))
                     else
                       (case sum_all_radiance dev rtile l s3 of
                          Inl e \<Rightarrow> Some (Inl e)
                        | Inr (ok, s4) \<Rightarrow>
                            if \<not> ok then Some (Inr (False, l, s4))
                            else Some (Inr (True, l, finish_tile cfg l s4)))))
             = Some (Inr (r, l, s'))"
    using run unfolding path_trace_def ws Let_def sum.case
    unfolding s1_def [symmetric] gs_def [symmetric] ls_def [symmetric]
    unfolding di prod.case l0_def [symmetric] .
  show thesis
  proof (cases ok)
    case False
    then have di0: "data_init dev (KernelDimensions gs ls) rtile (sint (x ms) * sint (y ms))
       (num_parallel_samples ws) s1 = (False, s2)" using di by simp
    have "r = False" "s' = s2" "l = l0" using run' False by simp_all
    then show ?thesis
      using init [OF ws di0 [unfolded gs_def ls_def s1_def]] unfolding l0_def by blast
  next
    case True
    then obtain rl ll sl where lp: "path_iteration_loop cfg dev gs ls l0 s2 = Some (Inr (rl, ll, sl))"
      using run' by (auto split: option.splits sum.splits)
    have di': "data_init dev (KernelDimensions gs ls) rtile (sint (x ms) * sint (y ms))
       (num_parallel_samples ws) s1 = (True, s2)" using di True by simp
    show ?thesis
    proof (cases rl)
      case False
      then have "r = False" "l = ll" "s' = sl" using run' True lp by auto
      then show ?thesis
        using loop [OF ws di' [unfolded gs_def ls_def s1_def]] lp False
        unfolding gs_def ls_def l0_def by simp
    next
      case rl: True
      then obtain ok4 s4 where sr: "sum_all_radiance dev rtile ll sl = Inr (ok4, s4)"
        using run' True lp by (auto split: sum.splits)
      show ?thesis
      proof (cases ok4)
        case False
        then have "r = False" "l = ll" "s' = s4" using run' True lp rl sr by auto
        then show ?thesis
          using red [OF ws di' [unfolded gs_def ls_def s1_def], of sl] lp rl sr False
          unfolding gs_def ls_def l0_def by simp
      next
        case ok4: True
        then have "r = True" "l = ll" "s' = finish_tile cfg ll s4"
          using run' True lp rl sr by auto
        then show ?thesis
          using fin [OF ws di' [unfolded gs_def ls_def s1_def], of sl s4] lp rl sr ok4
          unfolding gs_def ls_def l0_def by simp
      qed
    qed
  qed
qed

lemma events_since_append: "trace s' = trace s @ evs \<Longrightarrow> events_since s s' = evs"
  by (simp add: events_since_def)

subsection \<open>Evaluating runs on the scripted device\<close>

lemma path_iterations_numeral:
  "path_iterations dev ks (numeral k) l s =
     (case enqueue_kernels dev ks s of
        Inl e \<Rightarrow> Inl e
      | Inr (ok, s1) \<Rightarrow>
          if \<not> ok then Inr (False, l, s1)
          else
            (let (c, s2) = poll_cancel dev s1
             in if c then Inr (True, l\<lparr>canceled := True\<rparr>, s2)
                else path_iterations dev ks (pred_numeral k) l s2))"
  by (simp add: numeral_eq_Suc)

lemma replicate_numeral: "replicate (numeral k) v = v # replicate (pred_numeral k) v"
  by (simp add: numeral_eq_Suc)

lemmas run_eval =
  trace_small_tile_def loaded_def load_kernels_def split_kernel_names_def DeviceSplitKernel_def
  scripted_device_def no_calls_def small_config_def small_tile_def small_max_def
  path_trace_def compute_work_size_def round_up_local_def to_size_t_def to_uint_def
  in_int_range_def INT_MIN_def INT_MAX_def allocate_global_memory_def alloc_buffer_def
  resize_def data_init_def KernelDimensions_def path_iteration_kernels_def
  path_iteration_pass_def ENQUEUE_SPLIT_KERNEL_def poll_cancel_def copy_ray_state_def
  active_rays_available_def sum_all_radiance_def finish_tile_def next_path_iteration_times_def
  outcome_def Let_def path_iterations_numeral path_iteration_loop.simps upt_conv_Cons replicate_numeral
  ideal_script_def busy_script_def canceled_script_def late_cancel_script_def
  failed_init_script_def failed_enqueue_script_def withdrawn_cancel_script_def
  no_reduction_script_def thin_config_def

section \<open>Loading the kernels\<close>

lemma split_kernel_names_all: "name \<in> set split_kernel_names"
  by (cases name) (simp_all add: split_kernel_names_def)

lemma load_kernel_list_result:
  assumes "load_kernel_list dev requested names s = (ok, s')"
  shows "(ok \<longleftrightarrow> (\<forall>name \<in> set names. get_split_kernel_function dev name requested \<noteq> None)) \<and>
         (ok \<longrightarrow> (\<forall>name. kernels s' name =
                        (if name \<in> set names then get_split_kernel_function dev name requested
                         else kernels s name))) \<and>
         (\<not> ok \<longrightarrow> (\<exists>name \<in> set names. kernels s' name = None)) \<and>
         current_max_closure s' = current_max_closure s \<and>
         path_iteration_times s' = path_iteration_times s \<and>
         first_tile s' = first_tile s \<and> ray_state s' = ray_state s \<and>
         world s' = world s \<and> trace s' = trace s"
  using assms
proof (induction names arbitrary: s)
  case Nil
  then show ?case by simp
next
  case (Cons name names)
  define s1 where
    "s1 = s\<lparr>kernels := (kernels s)(name := get_split_kernel_function dev name requested)\<rparr>"
  show ?case
  proof (cases "get_split_kernel_function dev name requested")
    case None
    then have "ok = False" "s' = s1" using Cons.prems by (simp_all add: s1_def Let_def)
    then show ?thesis using None by (simp add: s1_def)
  next
    case (Some k)
    then have "load_kernel_list dev requested names s1 = (ok, s')"
      using Cons.prems by (simp add: s1_def Let_def)
    from Cons.IH [OF this] Some show ?thesis
      by (auto simp: s1_def)
  qed
qed

text \<open>
  A member is assigned exactly when every kernel before it in the list has
  resolved; the others keep what they held.
\<close>

lemma load_kernel_list_members:
  assumes "load_kernel_list dev requested names s = (ok, s')"
  shows "kernels s' name =
           (if name \<in> set names \<and>
               list_all (\<lambda>n. get_split_kernel_function dev n requested \<noteq> None)
                 (takeWhile (\<lambda>n. n \<noteq> name) names)
            then get_split_kernel_function dev name requested
            else kernels s name)"
  using assms
proof (induction names arbitrary: s)
  case Nil
  then show ?case by simp
next
  case (Cons n names)
  define s1 where
    "s1 = s\<lparr>kernels := (kernels s)(n := get_split_kernel_function dev n requested)\<rparr>"
  show ?case
  proof (cases "get_split_kernel_function dev n requested")
    case None
    then have "s' = s1" using Cons.prems by (simp add: s1_def Let_def)
    then show ?thesis using None by (simp add: s1_def)
  next
    case (Some k)
    then have "load_kernel_list dev requested names s1 = (ok, s')"
      using Cons.prems by (simp add: s1_def Let_def)
    from Cons.IH [OF this, of ] Some show ?thesis
      by (auto simp: s1_def)
  qed
qed

text \<open>
  Claim C6, as stated, fails in its middle part: after a failed
  \<^verbatim>\<open>load_kernels\<close> the kernels that resolved stay loaded, and
  \<^verbatim>\<open>path_trace\<close> does not ask whether loading succeeded. On a device
  that lacks the sum-all-radiance kernel \<^verbatim>\<open>load_kernels\<close> returns false;
  \<^verbatim>\<open>path_trace\<close> on that scheduler, with a cancel request pending,
  allocates the buffers, enqueues data-init and the nine kernels of a path
  iteration, and returns true.
\<close>

theorem load_kernels_counterexample:
  "\<not> fst (load_kernels (scripted_device no_reduction_script) \<lparr>max_closure = 10\<rparr>
            (DeviceSplitKernel small_config no_calls)) \<and>
   loaded no_reduction_script =
     snd (load_kernels (scripted_device no_reduction_script) \<lparr>max_closure = 10\<rparr>
            (DeviceSplitKernel small_config no_calls)) \<and>
   outcome (trace_small_tile no_reduction_script (loaded no_reduction_script)) =
     Some (Inr (True,
       \<lparr>canceled = True, numHostIntervention = 0, numNextPathIterTimes = 2\<rparr>, 2, False, [1, 1],
       [Mem_alloc Work_pool_wgs 4, Mem_alloc Queue_index 16, Mem_alloc Use_queues_flag 1,
        Mem_alloc Kgbuffer 1024, Mem_alloc Ray_state 2, Mem_alloc Split_data 8,
        Enqueue_data_init \<lparr>global_size = (2, 1), local_size = (2, 1)\<rparr> 2 1 True] @
       round_events (path_iteration_kernels (2, 1) (2, 1)) @
       [Get_cancel True, Mem_copy_from Ray_state 2, Get_cancel True]))"
  by (simp add: run_eval round_events_def)

text \<open>
  Claim C6, amended. \<^verbatim>\<open>load_kernels\<close> returns true exactly when every
  one of the ten kernels resolves; then every kernel member holds its resolved
  kernel and \<^verbatim>\<open>current_max_closure\<close> is the maximum closure count of the
  request. When a kernel resolves to null it returns false and
  \<^verbatim>\<open>current_max_closure\<close> keeps its value; the member of the first
  kernel that does not resolve is null, the members before it hold their
  resolved kernels, and the members after it keep what they held: the
  pipeline is not complete.
\<close>

theorem load_kernels_all_or_nothing:
  assumes "load_kernels dev requested s = (ok, s')"
  shows "(ok \<longleftrightarrow> (\<forall>name. get_split_kernel_function dev name requested \<noteq> None)) \<and>
         (ok \<longrightarrow> (\<forall>name. kernels s' name = get_split_kernel_function dev name requested) \<and>
                 current_max_closure s' = max_closure requested) \<and>
         (\<not> ok \<longrightarrow> (\<exists>name. kernels s' name = None) \<and>
                   current_max_closure s' = current_max_closure s) \<and>
         (\<forall>name. kernels s' name =
            (if list_all (\<lambda>n. get_split_kernel_function dev n requested \<noteq> None)
                  (takeWhile (\<lambda>n. n \<noteq> name) split_kernel_names)
             then get_split_kernel_function dev name requested
             else kernels s name))"
proof -
  obtain ok1 s1 where r: "load_kernel_list dev requested split_kernel_names s = (ok1, s1)"
    by (cases "load_kernel_list dev requested split_kernel_names s")
  have ok: "ok = ok1" using assms r by (cases ok1) (simp_all add: load_kernels_def)
  have k: "kernels s' = kernels s1" using assms r by (cases ok1) (auto simp: load_kernels_def)
  have c: "current_max_closure s' = (if ok1 then max_closure requested else current_max_closure s1)"
    using assms r by (cases ok1) (auto simp: load_kernels_def)
  have a: "(ok \<longleftrightarrow> (\<forall>name. get_split_kernel_function dev name requested \<noteq> None)) \<and>
         (ok \<longrightarrow> (\<forall>name. kernels s' name = get_split_kernel_function dev name requested) \<and>
                 current_max_closure s' = max_closure requested) \<and>
         (\<not> ok \<longrightarrow> (\<exists>name. kernels s' name = None) \<and>
                   current_max_closure s' = current_max_closure s)"
    using load_kernel_list_result [OF r]
    unfolding ok k c using split_kernel_names_all by auto
  have b: "kernels s' name =
            (if list_all (\<lambda>n. get_split_kernel_function dev n requested \<noteq> None)
                  (takeWhile (\<lambda>n. n \<noteq> name) split_kernel_names)
             then get_split_kernel_function dev name requested
             else kernels s name)" for name
    unfolding k using load_kernel_list_members [OF r, of name] split_kernel_names_all by simp
  from a b show ?thesis by blast
qed

text \<open>
  The theorem on a device that has all ten kernels and on one that lacks the
  shadow-blocked kernel: the seven kernels before it are loaded, it is null,
  and the two after it are as the constructor left them.
\<close>

theorem load_kernels_all_or_nothing_witness:
  "fst (load_kernels (scripted_device ideal_script) \<lparr>max_closure = 10\<rparr>
          (DeviceSplitKernel fixed_allocation_config no_calls)) \<and>
   current_max_closure
     (snd (load_kernels (scripted_device ideal_script) \<lparr>max_closure = 10\<rparr>
             (DeviceSplitKernel fixed_allocation_config no_calls))) = 10 \<and>
   \<not> fst (load_kernels (scripted_device no_shadow_blocked_script) \<lparr>max_closure = 10\<rparr>
            (DeviceSplitKernel fixed_allocation_config no_calls)) \<and>
   current_max_closure
     (snd (load_kernels (scripted_device no_shadow_blocked_script) \<lparr>max_closure = 10\<rparr>
             (DeviceSplitKernel fixed_allocation_config no_calls))) = - 1 \<and>
   map (kernels
     (snd (load_kernels (scripted_device no_shadow_blocked_script) \<lparr>max_closure = 10\<rparr>
             (DeviceSplitKernel fixed_allocation_config no_calls)))) split_kernel_names =
     [Some Scene_intersect, Some Lamp_emission, Some Queue_enqueue, Some Background_buffer_update,
      Some Shader_eval, Some Holdout_emission_blurring_pathtermination_ao, Some Direct_lighting,
      None, None, None]"
  using load_kernels_all_or_nothing
      [OF prod.collapse [symmetric],
       of "scripted_device ideal_script" "\<lparr>max_closure = 10\<rparr>"
          "DeviceSplitKernel fixed_allocation_config no_calls"]
    load_kernels_all_or_nothing
      [OF prod.collapse [symmetric],
       of "scripted_device no_shadow_blocked_script" "\<lparr>max_closure = 10\<rparr>"
          "DeviceSplitKernel fixed_allocation_config no_calls"]
  by (auto simp: scripted_device_def ideal_script_def no_shadow_blocked_script_def
      DeviceSplitKernel_def split_kernel_names_def)

section \<open>The claims about the loop\<close>

subsection \<open>The order of the kernels in a path iteration\<close>

lemma round_up_local_bound:
  assumes "0 < ls" "0 < d" "d < 2 ^ 31" "ls < 2 ^ 31"
  shows "round_up_local d ls < 2 ^ 32"
proof -
  define k where "k = nat (d - 1)"
  have k: "to_size_t (d - 1) = k" "k < 2 ^ 31"
    using assms by (simp_all add: k_def to_size_t_id nat_less_iff)
  have "(k div ls) * ls \<le> k" by simp
  then have "(k div ls + 1) * ls \<le> k + ls" by (simp add: algebra_simps)
  also have "\<dots> < 2 ^ 31 + 2 ^ 31" using k(2) assms(4) by (rule add_strict_mono)
  finally have "(k div ls + 1) * ls < 2 ^ 32" by simp
  moreover have "round_up_local d ls \<le> (k div ls + 1) * ls"
    unfolding round_up_local_def k by simp
  ultimately show ?thesis by (rule le_less_trans [rotated])
qed

lemma global_size_0_bound:
  assumes "compute_work_size cfg rtile ms = Inr ws" "0 < sint (tile_w rtile)"
    "SPLIT_KERNEL_LOCAL_SIZE_X cfg < 2 ^ 31"
  shows "global_size_0 ws < 2 ^ 32"
proof (cases "WORK_STEALING cfg")
  case True
  define lx where "lx = SPLIT_KERNEL_LOCAL_SIZE_X cfg"
  have l: "0 < lx"
    and g: "global_size_0 ws = round_up_local (sint (tile_w rtile)) lx"
    using assms(1) True unfolding compute_work_size_def Let_def lx_def
    by (auto split: if_splits)
  show ?thesis
    unfolding g using l assms(2,3) sint_ranges(1) [of "tile_w rtile"] unfolding lx_def
    by (intro round_up_local_bound) simp_all
next
  case False
  then have "\<exists>n. global_size_0 ws = n mod 2 ^ 32"
    using assms(1) unfolding compute_work_size_def Let_def by (auto split: if_splits)
  then show ?thesis by auto
qed

lemma outcome_Inr:
  assumes "outcome res = Some (Inr (r, l, b, f, rs, tr))"
  shows "\<exists>s. res = Some (Inr (r, l, s)) \<and> path_iteration_times s = b \<and> first_tile s = f \<and>
             ray_state s = rs \<and> trace s = tr"
proof -
  from assms obtain v where v: "res = Some v"
    "map_sum id (\<lambda>(r, l, s). (r, l, path_iteration_times s, first_tile s, ray_state s, trace s)) v
     = Inr (r, l, b, f, rs, tr)"
    by (auto simp: outcome_def)
  then show ?thesis by (cases v) auto
qed

lemma path_iteration_pass_trace:
  assumes "path_iteration_pass cfg dev gs ls l s = Inr (c, l', s')" and "c \<noteq> Return_false"
  shows "\<exists>cs cp. trace s' =
           trace s @ batch_events (path_iteration_kernels gs ls) cs @
             [Mem_copy_from Ray_state ((fst gs * snd gs) mod 2 ^ 64), Get_cancel cp] \<and>
           (cs = replicate (unat (path_iteration_times s)) False \<or>
            (\<exists>j<unat (path_iteration_times s). cs = replicate j False @ [True]))"
proof -
  define ks where "ks = path_iteration_kernels gs ls"
  define n where "n = (fst gs * snd gs) mod 2 ^ 64"
  from path_iteration_pass_synced [OF assms] obtain l1 s1 cp s3 where
    b: "path_iterations dev ks (unat (path_iteration_times s)) l s = Inr (True, l1, s1)"
    and p: "poll_cancel dev s3 = (cp, s')"
    and s3: "s3 = copy_ray_state dev n s1 \<or>
             s3 = (copy_ray_state dev n s1)\<lparr>path_iteration_times := PATH_ITER_INC_FACTOR cfg\<rparr>"
    unfolding ks_def n_def by (auto split: if_splits)
  from path_iterations_True [OF b] obtain cs where cs:
    "trace s1 = trace s @ batch_events ks cs"
    "cs = replicate (unat (path_iteration_times s)) False \<or>
     (\<exists>j<unat (path_iteration_times s). cs = replicate j False @ [True])"
    by blast
  have "trace s3 = trace s1 @ [Mem_copy_from Ray_state n]"
    using s3 copy_ray_state_result(1) [where dev = dev and n = n and s = s1] by auto
  then have "trace s' = trace s @ batch_events ks cs @ [Mem_copy_from Ray_state n, Get_cancel cp]"
    using poll_cancel_result(1) [OF p] cs(1) by simp
  then show ?thesis using cs(2) unfolding ks_def n_def by blast
qed

lemma batch_ends_at_cancel_shape:
  assumes "cs = replicate n False \<or> (\<exists>j<n. cs = replicate j False @ [True])"
  shows "batch_ends_at_cancel cs" "length cs \<le> n"
  using assms by (auto simp: batch_ends_at_cancel_def list_all_iff dest: in_set_butlastD)

lemma path_iteration_pass_log:
  assumes "path_iteration_pass cfg dev gs ls l s = Inr (c, l', s')" and "c \<noteq> Return_false"
  shows "\<exists>p. trace s' =
           trace s @ pass_events (path_iteration_kernels gs ls) ((fst gs * snd gs) mod 2 ^ 64) p \<and>
           batch_ends_at_cancel (fst p) \<and> length (fst p) \<le> unat (path_iteration_times s)"
proof -
  from path_iteration_pass_trace [OF assms] obtain cs cp where a:
    "trace s' =
       trace s @ batch_events (path_iteration_kernels gs ls) cs @
         [Mem_copy_from Ray_state ((fst gs * snd gs) mod 2 ^ 64), Get_cancel cp]"
    "cs = replicate (unat (path_iteration_times s)) False \<or>
     (\<exists>j<unat (path_iteration_times s). cs = replicate j False @ [True])"
    by blast
  show ?thesis
    using a(1) batch_ends_at_cancel_shape [OF a(2)]
    by (intro exI [of _ "(cs, cp)"]) (simp add: pass_events_def)
qed

lemma path_iteration_pass_failed_log:
  assumes "path_iteration_pass cfg dev gs ls l s = Inr (Return_false, l', s')"
  shows "\<exists>m j. j < 9 \<and> m < unat (path_iteration_times s) \<and>
           trace s' =
             trace s @ batch_events (path_iteration_kernels gs ls) (replicate m False) @
               failed_round_events (path_iteration_kernels gs ls) j"
proof -
  from path_iterations_False [OF path_iteration_pass_Return_false [OF assms]]
  obtain m j where "m < unat (path_iteration_times s)"
    "j < length (path_iteration_kernels gs ls)"
    "trace s' =
       trace s @ batch_events (path_iteration_kernels gs ls) (replicate m False) @
         failed_round_events (path_iteration_kernels gs ls) j"
    by blast
  moreover have "length (path_iteration_kernels gs ls) = 9"
    by (simp add: path_iteration_kernels_def Let_def)
  ultimately show ?thesis by auto
qed

text \<open>
  The log of the \<^verbatim>\<open>while\<close> loop: passes that did not fail, at least one
  when the loop is left without a failure, and otherwise the batch in which an
  enqueue failed.
\<close>

lemma path_iteration_loop_log:
  assumes "path_iteration_loop cfg dev gs ls l s = Some (Inr (r, l', s'))"
  shows "\<exists>ps tail.
           trace s' =
             trace s @
             passes_events (path_iteration_kernels gs ls) ((fst gs * snd gs) mod 2 ^ 64) ps @ tail \<and>
           list_all (\<lambda>p. batch_ends_at_cancel (fst p)) ps \<and>
           (if r then ps \<noteq> [] \<and> tail = []
            else (\<exists>m j. j < 9 \<and>
                   tail = batch_events (path_iteration_kernels gs ls) (replicate m False) @
                          failed_round_events (path_iteration_kernels gs ls) j))"
proof -
  define ks where "ks = path_iteration_kernels gs ls"
  define n where "n = (fst gs * snd gs) mod 2 ^ 64"
  define P where "P = (\<lambda>(l :: locals) (s :: ('a, 'b) state)
      (res :: error + bool \<times> locals \<times> ('a, 'b) state).
    \<forall>r l' s'. res = Inr (r, l', s') \<longrightarrow>
      (\<exists>ps tail. trace s' = trace s @ passes_events ks n ps @ tail \<and>
           list_all (\<lambda>p. batch_ends_at_cancel (fst p)) ps \<and>
           (if r then ps \<noteq> [] \<and> tail = []
            else (\<exists>m j. j < 9 \<and>
                   tail = batch_events ks (replicate m False) @ failed_round_events ks j))))"
  have "P l s (Inr (r, l', s'))"
    using assms
  proof (induction rule: path_iteration_loop_induct)
    case (Error l s e)
    then show ?case by (simp add: P_def)
  next
    case (Return_false l s l' s')
    from path_iteration_pass_failed_log [OF this] obtain m j where
      "j < 9" "trace s' = trace s @ batch_events ks (replicate m False) @ failed_round_events ks j"
      unfolding ks_def by blast
    then have "trace s' = trace s @ passes_events ks n [] @
        (batch_events ks (replicate m False) @ failed_round_events ks j)"
      by (simp add: passes_events_def)
    then show ?case
      unfolding P_def using \<open>j < 9\<close>
      by (intro allI impI exI [of _ "[]"]
            exI [of _ "batch_events ks (replicate m False) @ failed_round_events ks j"]) auto
  next
    case (Leave_loop l s l' s')
    from path_iteration_pass_log [OF this] obtain p where
      "trace s' = trace s @ pass_events ks n p" "batch_ends_at_cancel (fst p)"
      unfolding ks_def n_def by auto
    then show ?case
      unfolding P_def
      by (intro allI impI exI [of _ "[p]"] exI [of _ "[]"]) (simp add: passes_events_def)
  next
    case (Next_pass l s l1 s1 res)
    from path_iteration_pass_log [OF Next_pass(1)] obtain p where p:
      "trace s1 = trace s @ pass_events ks n p" "batch_ends_at_cancel (fst p)"
      unfolding ks_def n_def by auto
    show ?case
      unfolding P_def
    proof (intro allI impI)
      fix r l' s'
      assume "res = Inr (r, l', s')"
      with Next_pass(2) obtain ps tail where e:
        "trace s' = trace s1 @ passes_events ks n ps @ tail"
        "list_all (\<lambda>p. batch_ends_at_cancel (fst p)) ps"
        "if r then ps \<noteq> [] \<and> tail = []
         else (\<exists>m j. j < 9 \<and>
                tail = batch_events ks (replicate m False) @ failed_round_events ks j)"
        unfolding P_def by blast
      have "trace s' = trace s @ passes_events ks n (p # ps) @ tail"
        using p(1) e(1) by (simp add: passes_events_def)
      moreover have "list_all (\<lambda>p. batch_ends_at_cancel (fst p)) (p # ps)"
        using p(2) e(2) by simp
      moreover have "if r then p # ps \<noteq> [] \<and> tail = []
         else (\<exists>m j. j < 9 \<and>
                tail = batch_events ks (replicate m False) @ failed_round_events ks j)"
        using e(3) by (cases r) simp_all
      ultimately show "\<exists>ps tail. trace s' = trace s @ passes_events ks n ps @ tail \<and>
           list_all (\<lambda>p. batch_ends_at_cancel (fst p)) ps \<and>
           (if r then ps \<noteq> [] \<and> tail = []
            else (\<exists>m j. j < 9 \<and>
                   tail = batch_events ks (replicate m False) @ failed_round_events ks j))"
        by blast
    qed
  qed
  then show ?thesis unfolding P_def ks_def n_def by simp
qed

text \<open>
  The log of the start of a tile: the allocations of the first tile and the
  data-init dispatch on the dispatch grid.
\<close>

lemma start_of_tile_log:
  assumes "data_init dev dims rtile n nps
             (if first_tile s then allocate_global_memory cfg dev ms p s else s) = (ok, s2)"
  shows "\<exists>allocs. trace s2 = trace s @ allocs @ [Enqueue_data_init dims n nps ok] \<and>
           list_all is_alloc allocs"
proof (cases "first_tile s")
  case True
  from allocate_global_memory_result(1)
    [where s = s and cfg = cfg and dev = dev and ms = ms and p = p]
  obtain evs where "trace (allocate_global_memory cfg dev ms p s) = trace s @ evs"
    "list_all is_alloc evs" by blast
  then show ?thesis using data_init_result(1) [OF assms] True by simp
next
  case False
  then show ?thesis using data_init_result(1) [OF assms] by (intro exI [of _ "[]"]) simp
qed

text \<open>
  Claim C9, as stated, fails in one word: the first dimension of the grid of
  the shadow-blocked kernel is \<^verbatim>\<open>global_size[0] * 2\<close> in
  \<^verbatim>\<open>size_t\<close>, which is not twice \<^verbatim>\<open>global_size[0]\<close> where the
  product wraps around. With the local size 1 by 2 and work stealing, a tile
  of width \<open>-1\<close> and height 0 in a maximum feasible tile size of 1 by 2 passes
  the assertions with the grid \<open>(2 ^ 64 - 1, 0)\<close>; \<^verbatim>\<open>path_trace\<close>
  returns true, and it has enqueued the shadow-blocked kernel on the grid
  \<open>(2 ^ 64 - 2, 0)\<close>.
\<close>

theorem path_iteration_counterexample:
  "compute_work_size thin_config \<lparr>tile_w = - 1, tile_h = 0, num_samples = 1\<rparr> \<lparr>x = 1, y = 2\<rparr> =
     Inr \<lparr>global_size_0 = 18446744073709551615, global_size_1 = 0, num_parallel_samples = 1\<rparr> \<and>
   outcome
     (path_trace thin_config (scripted_device ideal_script)
        \<lparr>tile_w = - 1, tile_h = 0, num_samples = 1\<rparr> \<lparr>x = 1, y = 2\<rparr> 4
        (snd (load_kernels (scripted_device ideal_script) \<lparr>max_closure = 10\<rparr>
                (DeviceSplitKernel thin_config no_calls)))) =
     Some (Inr (True,
       \<lparr>canceled = False, numHostIntervention = 0, numNextPathIterTimes = 1\<rparr>, 1, False, [0, 0],
       [Mem_alloc Work_pool_wgs 4, Mem_alloc Queue_index 16, Mem_alloc Use_queues_flag 1,
        Mem_alloc Kgbuffer 1024, Mem_alloc Ray_state 2, Mem_alloc Split_data 8,
        Enqueue_data_init
          \<lparr>global_size = (18446744073709551615, 0), local_size = (1, 2)\<rparr> 2 1 True,
        Enqueue Scene_intersect
          \<lparr>global_size = (18446744073709551615, 0), local_size = (1, 2)\<rparr> True,
        Enqueue Lamp_emission
          \<lparr>global_size = (18446744073709551615, 0), local_size = (1, 2)\<rparr> True,
        Enqueue Queue_enqueue
          \<lparr>global_size = (18446744073709551615, 0), local_size = (1, 2)\<rparr> True,
        Enqueue Background_buffer_update
          \<lparr>global_size = (18446744073709551615, 0), local_size = (1, 2)\<rparr> True,
        Enqueue Shader_eval
          \<lparr>global_size = (18446744073709551615, 0), local_size = (1, 2)\<rparr> True,
        Enqueue Holdout_emission_blurring_pathtermination_ao
          \<lparr>global_size = (18446744073709551615, 0), local_size = (1, 2)\<rparr> True,
        Enqueue Direct_lighting
          \<lparr>global_size = (18446744073709551615, 0), local_size = (1, 2)\<rparr> True,
        Enqueue Shadow_blocked
          \<lparr>global_size = (18446744073709551614, 0), local_size = (1, 2)\<rparr> True,
        Enqueue Next_iteration_setup
          \<lparr>global_size = (18446744073709551615, 0), local_size = (1, 2)\<rparr> True,
        Get_cancel False, Mem_copy_from Ray_state 0, Get_cancel False,
        Enqueue Sum_all_radiance \<lparr>global_size = (0, 0), local_size = (16, 16)\<rparr> True])) \<and>
   (18446744073709551614 :: nat) \<noteq> 2 * 18446744073709551615"
  by (simp add: run_eval)

text \<open>
  Claim C9, amended. A call of \<^verbatim>\<open>path_trace\<close> that returns has
  logged, after the allocations of the first tile, the data-init dispatch on
  the dispatch grid of the sizing block and then, if that dispatch succeeded,
  the passes of the \<^verbatim>\<open>while\<close> loop: each pass that does not fail is a
  batch of complete path iterations, each followed by a cancel poll, then the
  read-back and one more poll. A path iteration enqueues the nine kernels in
  the order scene-intersect, lamp-emission, queue-enqueue,
  background-buffer-update, shader-eval, holdout/blur/termination/ao,
  direct-lighting, shadow-blocked, next-iteration-setup, all on the dispatch
  grid and the local size of the tile, except shadow-blocked, whose grid has
  \<^verbatim>\<open>global_size[0] * 2\<close> modulo \<open>2 ^ 64\<close> as its first dimension:
  exactly twice \<^verbatim>\<open>global_size[0]\<close> where that is below \<open>2 ^ 63\<close>, as
  it is for every tile of positive width (the local width being an
  \<^verbatim>\<open>int\<close>). In a batch no poll but the last answers true: after a poll
  that answers true the read-back follows, no further path iteration of that
  batch; what was logged before stays. A call that returns true has made at
  least one pass, followed by the reduction or by nothing; a call that returns
  false after a successful data-init ends with the path iteration that an
  enqueue cut short, or with the failed reduction.
\<close>

theorem path_iteration_stage_order:
  "map fst (path_iteration_kernels gs ls) =
     [Scene_intersect, Lamp_emission, Queue_enqueue, Background_buffer_update, Shader_eval,
      Holdout_emission_blurring_pathtermination_ao, Direct_lighting, Shadow_blocked,
      Next_iteration_setup] \<and>
   (\<forall>(name, dims) \<in> set (path_iteration_kernels gs ls).
      local_size dims = ls \<and>
      global_size dims =
        (if name = Shadow_blocked then ((fst gs * 2) mod 2 ^ 64, snd gs) else gs)) \<and>
   (fst gs < 2 ^ 63 \<longrightarrow> (fst gs * 2) mod 2 ^ 64 = 2 * fst gs) \<and>
   (compute_work_size cfg rtile ms = Inr ws \<and> 0 < sint (tile_w rtile) \<and>
    SPLIT_KERNEL_LOCAL_SIZE_X cfg < 2 ^ 31 \<longrightarrow>
      global_size_0 ws < 2 ^ 63) \<and>
   (path_trace cfg dev rtile ms p s = Some (Inr (r, l, s')) \<and>
    compute_work_size cfg rtile ms = Inr ws \<longrightarrow>
      (\<exists>allocs ok ps tail.
         events_since s s' =
           allocs @
           [Enqueue_data_init
              (KernelDimensions (global_size_0 ws, global_size_1 ws)
                 (SPLIT_KERNEL_LOCAL_SIZE_X cfg, SPLIT_KERNEL_LOCAL_SIZE_Y cfg))
              (sint (x ms) * sint (y ms)) (num_parallel_samples ws) ok] @
           passes_events
             (path_iteration_kernels (global_size_0 ws, global_size_1 ws)
                (SPLIT_KERNEL_LOCAL_SIZE_X cfg, SPLIT_KERNEL_LOCAL_SIZE_Y cfg))
             ((global_size_0 ws * global_size_1 ws) mod 2 ^ 64) ps @
           tail \<and>
         list_all is_alloc allocs \<and>
         list_all (\<lambda>p. batch_ends_at_cancel (fst p)) ps \<and>
         (if \<not> ok then \<not> r \<and> ps = [] \<and> tail = []
          else if r
          then ps \<noteq> [] \<and> (tail = [] \<or> (\<exists>dims. tail = [Enqueue Sum_all_radiance dims True]))
          else (\<exists>m j. j < 9 \<and>
                 tail =
                   batch_events
                     (path_iteration_kernels (global_size_0 ws, global_size_1 ws)
                        (SPLIT_KERNEL_LOCAL_SIZE_X cfg, SPLIT_KERNEL_LOCAL_SIZE_Y cfg))
                     (replicate m False) @
                   failed_round_events
                     (path_iteration_kernels (global_size_0 ws, global_size_1 ws)
                        (SPLIT_KERNEL_LOCAL_SIZE_X cfg, SPLIT_KERNEL_LOCAL_SIZE_Y cfg)) j) \<or>
               ps \<noteq> [] \<and> (\<exists>dims. tail = [Enqueue Sum_all_radiance dims False]))))"
proof (intro conjI impI)
  show "map fst (path_iteration_kernels gs ls) =
     [Scene_intersect, Lamp_emission, Queue_enqueue, Background_buffer_update, Shader_eval,
      Holdout_emission_blurring_pathtermination_ao, Direct_lighting, Shadow_blocked,
      Next_iteration_setup]"
    by (simp add: path_iteration_kernels_def Let_def)
  show "\<forall>(name, dims) \<in> set (path_iteration_kernels gs ls).
      local_size dims = ls \<and>
      global_size dims =
        (if name = Shadow_blocked then ((fst gs * 2) mod 2 ^ 64, snd gs) else gs)"
    by (simp add: path_iteration_kernels_def Let_def KernelDimensions_def)
  show "(fst gs * 2) mod 2 ^ 64 = 2 * fst gs" if "fst gs < 2 ^ 63"
    using that by simp
next
  assume "compute_work_size cfg rtile ms = Inr ws \<and> 0 < sint (tile_w rtile) \<and>
    SPLIT_KERNEL_LOCAL_SIZE_X cfg < 2 ^ 31"
  then have "global_size_0 ws < 2 ^ 32" using global_size_0_bound by blast
  also have "(2 :: nat) ^ 32 < 2 ^ 63" by simp
  finally show "global_size_0 ws < 2 ^ 63" .
next
  assume a: "path_trace cfg dev rtile ms p s = Some (Inr (r, l, s')) \<and>
    compute_work_size cfg rtile ms = Inr ws"
  define gs' where "gs' = (global_size_0 ws, global_size_1 ws)"
  define ls' where "ls' = (SPLIT_KERNEL_LOCAL_SIZE_X cfg, SPLIT_KERNEL_LOCAL_SIZE_Y cfg)"
  define ks where "ks = path_iteration_kernels gs' ls'"
  define n where "n = (global_size_0 ws * global_size_1 ws) mod 2 ^ 64"
  define nge where "nge = sint (x ms) * sint (y ms)"
  define shape where "shape = (\<lambda>ok (ps :: (bool list \<times> bool) list) tail.
         if \<not> ok then \<not> r \<and> ps = [] \<and> tail = []
          else if r
          then ps \<noteq> [] \<and> (tail = [] \<or> (\<exists>dims. tail = [Enqueue Sum_all_radiance dims True]))
          else (\<exists>m j. j < 9 \<and>
                 tail = batch_events ks (replicate m False) @ failed_round_events ks j) \<or>
               ps \<noteq> [] \<and> (\<exists>dims. tail = [Enqueue Sum_all_radiance dims False]))"
  from a have run: "path_trace cfg dev rtile ms p s = Some (Inr (r, l, s'))"
    and ws: "compute_work_size cfg rtile ms = Inr ws" by simp_all
  have "\<exists>allocs ok ps tail.
         trace s' =
           trace s @ allocs @
           [Enqueue_data_init (KernelDimensions gs' ls') nge (num_parallel_samples ws) ok] @
           passes_events ks n ps @ tail \<and>
         list_all is_alloc allocs \<and>
         list_all (\<lambda>p. batch_ends_at_cancel (fst p)) ps \<and> shape ok ps tail"
    using run
  proof (cases rule: path_trace_cases)
    case (Init_failed ws' s2)
    then have w: "ws' = ws" using ws by simp
    from start_of_tile_log [OF Init_failed(2)] obtain allocs where
      "trace s2 = trace s @ allocs @
         [Enqueue_data_init (KernelDimensions gs' ls') nge (num_parallel_samples ws) False]"
      "list_all is_alloc allocs"
      unfolding w gs'_def ls'_def nge_def by blast
    then show ?thesis
      using Init_failed(3,4)
      by (intro exI [of _ allocs] exI [of _ False] exI [of _ "[]"])
         (simp add: shape_def passes_events_def)
  next
    case (Loop_failed ws' s2)
    then have w: "ws' = ws" using ws by simp
    from start_of_tile_log [OF Loop_failed(2)] obtain allocs where al:
      "trace s2 = trace s @ allocs @
         [Enqueue_data_init (KernelDimensions gs' ls') nge (num_parallel_samples ws) True]"
      "list_all is_alloc allocs"
      unfolding w gs'_def ls'_def nge_def by blast
    from path_iteration_loop_log [OF Loop_failed(3)] obtain ps tail where e:
      "trace s' = trace s2 @ passes_events ks n ps @ tail"
      "list_all (\<lambda>p. batch_ends_at_cancel (fst p)) ps"
      "\<exists>m j. j < 9 \<and> tail = batch_events ks (replicate m False) @ failed_round_events ks j"
      unfolding w ks_def n_def gs'_def ls'_def by auto
    show ?thesis
      using al e Loop_failed(4)
      by (intro exI [of _ allocs] exI [of _ True] exI [of _ ps] exI [of _ tail])
         (simp add: shape_def)
  next
    case (Reduction_failed ws' s2 s3)
    then have w: "ws' = ws" using ws by simp
    from start_of_tile_log [OF Reduction_failed(2)] obtain allocs where al:
      "trace s2 = trace s @ allocs @
         [Enqueue_data_init (KernelDimensions gs' ls') nge (num_parallel_samples ws) True]"
      "list_all is_alloc allocs"
      unfolding w gs'_def ls'_def nge_def by blast
    from path_iteration_loop_log [OF Reduction_failed(3)] obtain ps where e:
      "trace s3 = trace s2 @ passes_events ks n ps"
      "list_all (\<lambda>p. batch_ends_at_cancel (fst p)) ps" "ps \<noteq> []"
      unfolding w ks_def n_def gs'_def ls'_def by auto
    from sum_all_radiance_result [OF Reduction_failed(4)] obtain dims where
      d: "trace s' = trace s3 @ [Enqueue Sum_all_radiance dims False]" by auto
    show ?thesis
      using al e d Reduction_failed(5)
      by (intro exI [of _ allocs] exI [of _ True] exI [of _ ps]
            exI [of _ "[Enqueue Sum_all_radiance dims False]"])
         (simp add: shape_def)
  next
    case (Done ws' s2 s3 s4)
    then have w: "ws' = ws" using ws by simp
    from start_of_tile_log [OF Done(2)] obtain allocs where al:
      "trace s2 = trace s @ allocs @
         [Enqueue_data_init (KernelDimensions gs' ls') nge (num_parallel_samples ws) True]"
      "list_all is_alloc allocs"
      unfolding w gs'_def ls'_def nge_def by blast
    from path_iteration_loop_log [OF Done(3)] obtain ps where e:
      "trace s3 = trace s2 @ passes_events ks n ps"
      "list_all (\<lambda>p. batch_ends_at_cancel (fst p)) ps" "ps \<noteq> []"
      unfolding w ks_def n_def gs'_def ls'_def by auto
    from sum_all_radiance_result [OF Done(4)] obtain tail where
      d: "trace s4 = trace s3 @ tail"
      "tail = [] \<or> (\<exists>dims. tail = [Enqueue Sum_all_radiance dims True])" by auto
    show ?thesis
      using al e d Done(5,6)
      by (intro exI [of _ allocs] exI [of _ True] exI [of _ ps] exI [of _ tail])
         (simp add: shape_def finish_tile_result)
  qed
  then obtain allocs ok ps tail where
    t: "trace s' =
           trace s @ (allocs @
           [Enqueue_data_init (KernelDimensions gs' ls') nge (num_parallel_samples ws) ok] @
           passes_events ks n ps @ tail)"
    and rest: "list_all is_alloc allocs" "list_all (\<lambda>p. batch_ends_at_cancel (fst p)) ps"
      "shape ok ps tail"
    by auto
  from events_since_append [OF t] rest
  show "\<exists>allocs ok ps tail.
         events_since s s' =
           allocs @
           [Enqueue_data_init
              (KernelDimensions (global_size_0 ws, global_size_1 ws)
                 (SPLIT_KERNEL_LOCAL_SIZE_X cfg, SPLIT_KERNEL_LOCAL_SIZE_Y cfg))
              (sint (x ms) * sint (y ms)) (num_parallel_samples ws) ok] @
           passes_events
             (path_iteration_kernels (global_size_0 ws, global_size_1 ws)
                (SPLIT_KERNEL_LOCAL_SIZE_X cfg, SPLIT_KERNEL_LOCAL_SIZE_Y cfg))
             ((global_size_0 ws * global_size_1 ws) mod 2 ^ 64) ps @
           tail \<and>
         list_all is_alloc allocs \<and>
         list_all (\<lambda>p. batch_ends_at_cancel (fst p)) ps \<and>
         (if \<not> ok then \<not> r \<and> ps = [] \<and> tail = []
          else if r
          then ps \<noteq> [] \<and> (tail = [] \<or> (\<exists>dims. tail = [Enqueue Sum_all_radiance dims True]))
          else (\<exists>m j. j < 9 \<and>
                 tail =
                   batch_events
                     (path_iteration_kernels (global_size_0 ws, global_size_1 ws)
                        (SPLIT_KERNEL_LOCAL_SIZE_X cfg, SPLIT_KERNEL_LOCAL_SIZE_Y cfg))
                     (replicate m False) @
                   failed_round_events
                     (path_iteration_kernels (global_size_0 ws, global_size_1 ws)
                        (SPLIT_KERNEL_LOCAL_SIZE_X cfg, SPLIT_KERNEL_LOCAL_SIZE_Y cfg)) j) \<or>
               ps \<noteq> [] \<and> (\<exists>dims. tail = [Enqueue Sum_all_radiance dims False]))"
    unfolding shape_def ks_def n_def gs'_def ls'_def nge_def
    by (intro exI [of _ allocs] exI [of _ ok] exI [of _ ps] exI [of _ tail]) simp
qed

text \<open>
  The theorem on the run of the small tile with a cancel request that is there
  from the first poll on, while the lanes are still active: of the batch of
  two path iterations only the first is issued, the read-back and the second
  poll follow, and the call returns true.
\<close>

theorem path_iteration_stage_order_witness:
  "compute_work_size small_config small_tile small_max =
     Inr \<lparr>global_size_0 = 2, global_size_1 = 1, num_parallel_samples = 1\<rparr> \<and>
   0 < sint (tile_w small_tile) \<and> SPLIT_KERNEL_LOCAL_SIZE_X small_config < 2 ^ 31 \<and>
   global_size_0 \<lparr>global_size_0 = 2, global_size_1 = 1, num_parallel_samples = 1\<rparr> < 2 ^ 63 \<and>
   (\<exists>l s'. trace_small_tile canceled_script (loaded canceled_script) = Some (Inr (True, l, s')) \<and>
      events_since (loaded canceled_script) s' =
        [Mem_alloc Work_pool_wgs 4, Mem_alloc Queue_index 16, Mem_alloc Use_queues_flag 1,
         Mem_alloc Kgbuffer 1024, Mem_alloc Ray_state 2, Mem_alloc Split_data 8] @
        [Enqueue_data_init \<lparr>global_size = (2, 1), local_size = (2, 1)\<rparr> 2 1 True] @
        passes_events (path_iteration_kernels (2, 1) (2, 1)) 2 [([True], True)] \<and>
      (\<exists>allocs ps tail.
         events_since (loaded canceled_script) s' =
           allocs @ [Enqueue_data_init \<lparr>global_size = (2, 1), local_size = (2, 1)\<rparr> 2 1 True] @
           passes_events (path_iteration_kernels (2, 1) (2, 1)) 2 ps @ tail \<and>
         list_all is_alloc allocs \<and> list_all (\<lambda>p. batch_ends_at_cancel (fst p)) ps \<and>
         ps \<noteq> [] \<and> (tail = [] \<or> (\<exists>dims. tail = [Enqueue Sum_all_radiance dims True]))))"
proof -
  have ws: "compute_work_size small_config small_tile small_max =
     Inr \<lparr>global_size_0 = 2, global_size_1 = 1, num_parallel_samples = 1\<rparr>"
    by (simp add: run_eval)
  have pre: "0 < sint (tile_w small_tile)" "SPLIT_KERNEL_LOCAL_SIZE_X small_config < 2 ^ 31"
    by (simp_all add: small_tile_def small_config_def)
  have "outcome (trace_small_tile canceled_script (loaded canceled_script)) =
          Some (Inr (True, \<lparr>canceled = True, numHostIntervention = 1, numNextPathIterTimes = 4\<rparr>,
            4, False, [0, 0],
            [Mem_alloc Work_pool_wgs 4, Mem_alloc Queue_index 16, Mem_alloc Use_queues_flag 1,
             Mem_alloc Kgbuffer 1024, Mem_alloc Ray_state 2, Mem_alloc Split_data 8] @
            [Enqueue_data_init \<lparr>global_size = (2, 1), local_size = (2, 1)\<rparr> 2 1 True] @
            passes_events (path_iteration_kernels (2, 1) (2, 1)) 2 [([True], True)]))"
    by (simp add: run_eval passes_events_def pass_events_def batch_events_def round_events_def)
  then obtain s' where run:
    "trace_small_tile canceled_script (loaded canceled_script) =
       Some (Inr (True, \<lparr>canceled = True, numHostIntervention = 1, numNextPathIterTimes = 4\<rparr>, s'))"
    and tr: "trace s' =
            [Mem_alloc Work_pool_wgs 4, Mem_alloc Queue_index 16, Mem_alloc Use_queues_flag 1,
             Mem_alloc Kgbuffer 1024, Mem_alloc Ray_state 2, Mem_alloc Split_data 8] @
            [Enqueue_data_init \<lparr>global_size = (2, 1), local_size = (2, 1)\<rparr> 2 1 True] @
            passes_events (path_iteration_kernels (2, 1) (2, 1)) 2 [([True], True)]"
    using outcome_Inr by blast
  have t0: "trace (loaded canceled_script) = []" by (simp add: run_eval)
  have ev: "events_since (loaded canceled_script) s' =
        [Mem_alloc Work_pool_wgs 4, Mem_alloc Queue_index 16, Mem_alloc Use_queues_flag 1,
         Mem_alloc Kgbuffer 1024, Mem_alloc Ray_state 2, Mem_alloc Split_data 8] @
        [Enqueue_data_init \<lparr>global_size = (2, 1), local_size = (2, 1)\<rparr> 2 1 True] @
        passes_events (path_iteration_kernels (2, 1) (2, 1)) 2 [([True], True)]"
    unfolding events_since_def t0 tr by simp
  note inst = path_iteration_stage_order
    [where cfg = small_config and dev = "scripted_device canceled_script" and rtile = small_tile
       and ms = small_max and p = 4 and s = "loaded canceled_script" and r = True
       and l = "\<lparr>canceled = True, numHostIntervention = 1, numNextPathIterTimes = 4\<rparr>"
       and s' = s' and gs = "(2, 1)" and ls = "(2, 1)"
       and ws = "\<lparr>global_size_0 = 2, global_size_1 = 1, num_parallel_samples = 1\<rparr>"]
  have g: "global_size_0 \<lparr>global_size_0 = 2, global_size_1 = 1, num_parallel_samples = 1\<rparr> < 2 ^ 63"
    by simp
  have sz: "sint (x small_max) * sint (y small_max) = 2"
    "SPLIT_KERNEL_LOCAL_SIZE_X small_config = 2" "SPLIT_KERNEL_LOCAL_SIZE_Y small_config = 1"
    by (simp_all add: small_max_def small_config_def)
  have hyp: "path_trace small_config (scripted_device canceled_script) small_tile small_max 4
      (loaded canceled_script) =
      Some (Inr (True, \<lparr>canceled = True, numHostIntervention = 1, numNextPathIterTimes = 4\<rparr>, s')) \<and>
    compute_work_size small_config small_tile small_max =
      Inr \<lparr>global_size_0 = 2, global_size_1 = 1, num_parallel_samples = 1\<rparr>"
    using run ws unfolding trace_small_tile_def by simp
  have "\<exists>allocs ps tail.
         events_since (loaded canceled_script) s' =
           allocs @ [Enqueue_data_init \<lparr>global_size = (2, 1), local_size = (2, 1)\<rparr> 2 1 True] @
           passes_events (path_iteration_kernels (2, 1) (2, 1)) 2 ps @ tail \<and>
         list_all is_alloc allocs \<and> list_all (\<lambda>p. batch_ends_at_cancel (fst p)) ps \<and>
         ps \<noteq> [] \<and> (tail = [] \<or> (\<exists>dims. tail = [Enqueue Sum_all_radiance dims True]))"
    using mp [OF inst [THEN conjunct2, THEN conjunct2, THEN conjunct2, THEN conjunct2] hyp]
    by (simp add: sz KernelDimensions_def split: if_splits) blast
  then show ?thesis using ws pre g run ev by blast
qed

subsection \<open>The lanes when the loop ends\<close>

lemma active_rays_available_iff:
  assumes "n \<le> length rs"
  shows "active_rays_available cfg n rs \<longleftrightarrow> (\<exists>i<n. sint (rs ! i) \<noteq> RAY_INACTIVE cfg)"
proof -
  have "active_rays_available cfg n rs \<longleftrightarrow>
        (\<exists>i<length (take n rs). sint (take n rs ! i) \<noteq> RAY_INACTIVE cfg)"
    unfolding active_rays_available_def list_ex_length ..
  also have "\<dots> \<longleftrightarrow> (\<exists>i<n. sint (rs ! i) \<noteq> RAY_INACTIVE cfg)"
    using assms by auto
  finally show ?thesis .
qed

text \<open>
  Claim C4. When the \<^verbatim>\<open>while\<close> loop ends with no cancellation observed
  (the local \<^verbatim>\<open>canceled\<close> is false), the last read-back found no lane of
  the dispatch grid whose state differs from \<^verbatim>\<open>RAY_INACTIVE\<close>: every one
  of the first \<^verbatim>\<open>global_size[0] * global_size[1]\<close> bytes of the host copy
  of \<^verbatim>\<open>ray_state\<close> equals \<^verbatim>\<open>RAY_INACTIVE\<close>. The same holds of the
  scheduler that a call of \<^verbatim>\<open>path_trace\<close> leaves when it returns true
  without cancellation.
\<close>

theorem rays_inactive_when_loop_ends_uncanceled:
  "(path_iteration_loop cfg dev gs ls l0 s0 = Some (Inr (True, l, s)) \<and> \<not> canceled l \<longrightarrow>
      (fst gs * snd gs) mod 2 ^ 64 \<le> length (ray_state s) \<and>
      (\<forall>i < (fst gs * snd gs) mod 2 ^ 64. sint (ray_state s ! i) = RAY_INACTIVE cfg)) \<and>
   (path_trace cfg dev rtile ms p s0 = Some (Inr (True, l, s)) \<and> \<not> canceled l \<and>
    compute_work_size cfg rtile ms = Inr ws \<longrightarrow>
      (global_size_0 ws * global_size_1 ws) mod 2 ^ 64 \<le> length (ray_state s) \<and>
      (\<forall>i < (global_size_0 ws * global_size_1 ws) mod 2 ^ 64.
         sint (ray_state s ! i) = RAY_INACTIVE cfg))"
proof (intro conjI impI)
  assume a: "path_iteration_loop cfg dev gs ls l0 s0 = Some (Inr (True, l, s)) \<and> \<not> canceled l"
  then have r: "\<not> active_rays_available cfg ((fst gs * snd gs) mod 2 ^ 64) (ray_state s)"
    "(fst gs * snd gs) mod 2 ^ 64 \<le> length (ray_state s)"
    using path_iteration_loop_rays by blast+
  show "(fst gs * snd gs) mod 2 ^ 64 \<le> length (ray_state s)" by (rule r(2))
  show "\<forall>i < (fst gs * snd gs) mod 2 ^ 64. sint (ray_state s ! i) = RAY_INACTIVE cfg"
    using r(1) active_rays_available_iff [OF r(2)] by blast
next
  assume a: "path_trace cfg dev rtile ms p s0 = Some (Inr (True, l, s)) \<and> \<not> canceled l \<and>
    compute_work_size cfg rtile ms = Inr ws"
  then have run: "path_trace cfg dev rtile ms p s0 = Some (Inr (True, l, s))"
    and nc: "\<not> canceled l" and ws: "compute_work_size cfg rtile ms = Inr ws" by simp_all
  define n where "n = (global_size_0 ws * global_size_1 ws) mod 2 ^ 64"
  have r: "\<not> active_rays_available cfg n (ray_state s) \<and> n \<le> length (ray_state s)"
    using run
  proof (cases rule: path_trace_cases)
    case (Done ws' s2 s3 s4)
    then have w: "ws' = ws" using ws by simp
    from path_iteration_loop_rays [OF Done(3) nc]
    have "\<not> active_rays_available cfg n (ray_state s3) \<and> n \<le> length (ray_state s3)"
      unfolding n_def w by simp
    moreover have "ray_state s4 = ray_state s3"
      using sum_all_radiance_result [OF Done(4)] by auto
    ultimately show ?thesis using Done(5) by (simp add: finish_tile_result)
  qed simp_all
  then show "(global_size_0 ws * global_size_1 ws) mod 2 ^ 64 \<le> length (ray_state s)"
    unfolding n_def by simp
  show "\<forall>i < (global_size_0 ws * global_size_1 ws) mod 2 ^ 64.
         sint (ray_state s ! i) = RAY_INACTIVE cfg"
    using r active_rays_available_iff [of n "ray_state s" cfg] unfolding n_def by blast
qed

text \<open>
  The theorem on the run of the small tile on the device whose lanes are all
  inactive at the first read-back.
\<close>

theorem rays_inactive_when_loop_ends_uncanceled_witness:
  "\<exists>l s. trace_small_tile ideal_script (loaded ideal_script) = Some (Inr (True, l, s)) \<and>
         \<not> canceled l \<and>
         compute_work_size small_config small_tile small_max =
           Inr \<lparr>global_size_0 = 2, global_size_1 = 1, num_parallel_samples = 1\<rparr> \<and>
         ray_state s = [1, 1] \<and> sint (ray_state s ! 0) = RAY_INACTIVE small_config \<and>
         sint (ray_state s ! 1) = RAY_INACTIVE small_config"
proof -
  have "\<exists>tr. outcome (trace_small_tile ideal_script (loaded ideal_script)) =
          Some (Inr (True, \<lparr>canceled = False, numHostIntervention = 0, numNextPathIterTimes = 2\<rparr>,
                     2, False, [1, 1], tr))"
    by (simp add: run_eval)
  then obtain s where run:
    "trace_small_tile ideal_script (loaded ideal_script) =
       Some (Inr (True, \<lparr>canceled = False, numHostIntervention = 0, numNextPathIterTimes = 2\<rparr>, s))"
    and rs: "ray_state s = [1, 1]"
    using outcome_Inr by blast
  have ws: "compute_work_size small_config small_tile small_max =
           Inr \<lparr>global_size_0 = 2, global_size_1 = 1, num_parallel_samples = 1\<rparr>"
    by (simp add: run_eval)
  have "\<forall>i < (2 * 1) mod 2 ^ 64. sint (ray_state s ! i) = RAY_INACTIVE small_config"
    using rays_inactive_when_loop_ends_uncanceled
      [of small_config "scripted_device ideal_script" _ _ _ _
          "\<lparr>canceled = False, numHostIntervention = 0, numNextPathIterTimes = 2\<rparr>" s
          small_tile small_max 4 "\<lparr>global_size_0 = 2, global_size_1 = 1, num_parallel_samples = 1\<rparr>"]
      run ws
    unfolding trace_small_tile_def by simp
  then have "sint (ray_state s ! 0) = RAY_INACTIVE small_config"
    "sint (ray_state s ! 1) = RAY_INACTIVE small_config" by simp_all
  then show ?thesis using run rs ws by simp
qed

section \<open>Failed dispatches and cancellation\<close>

subsection \<open>What a call of path\_trace logs\<close>

lemma path_trace_unfold:
  assumes "compute_work_size cfg rtile ms = Inr ws"
    and "start_of_tile cfg dev rtile ms p ws s = (ok, s2)"
  shows "path_trace cfg dev rtile ms p s =
     (if \<not> ok then Some (Inr (False, initial_locals s2, s2))
      else
        (case path_iteration_loop cfg dev (global_size_0 ws, global_size_1 ws)
                (SPLIT_KERNEL_LOCAL_SIZE_X cfg, SPLIT_KERNEL_LOCAL_SIZE_Y cfg)
                (initial_locals s2) s2 of
           None \<Rightarrow> None
         | Some (Inl e) \<Rightarrow> Some (Inl e)
         | Some (Inr (ok, l, s3)) \<Rightarrow>
             if \<not> ok then Some (Inr (False, l, s3))
             else
               (case sum_all_radiance dev rtile l s3 of
                  Inl e \<Rightarrow> Some (Inl e)
                | Inr (ok, s4) \<Rightarrow>
                    if \<not> ok then Some (Inr (False, l, s4))
                    else Some (Inr (True, l, finish_tile cfg l s4)))))"
  unfolding path_trace_def assms(1) sum.case Let_def
  unfolding assms(2) [unfolded start_of_tile_def] prod.case initial_locals_def ..

lemma pass_event_not_others:
  "pass_event e \<Longrightarrow> \<not> is_alloc e \<and> \<not> is_free e \<and> \<not> is_reduction e"
  by (cases e) simp_all

lemma list_all_pass_event:
  assumes "list_all pass_event evs"
  shows "\<not> list_ex is_alloc evs" "\<not> list_ex is_free evs" "\<not> list_ex is_reduction evs"
  using assms pass_event_not_others by (auto simp: list_all_iff list_ex_iff)

lemma list_all_is_alloc:
  assumes "list_all is_alloc evs"
  shows "\<not> list_ex is_free evs" "\<not> list_ex failed_dispatch evs" "\<not> list_ex is_reduction evs"
proof -
  have "\<not> is_free e \<and> \<not> failed_dispatch e \<and> \<not> is_reduction e" if "is_alloc e" for e
    using that by (cases e) simp_all
  then show "\<not> list_ex is_free evs" "\<not> list_ex failed_dispatch evs" "\<not> list_ex is_reduction evs"
    using assms by (auto simp: list_all_iff list_ex_iff)
qed

lemma start_of_tile_result:
  assumes "start_of_tile cfg dev rtile ms p ws s = (ok, s2)"
  shows "\<exists>allocs e. trace s2 = trace s @ allocs @ [e] \<and>
           (if first_tile s then allocs \<noteq> [] \<and> list_all is_alloc allocs else allocs = []) \<and>
           \<not> is_alloc e \<and> \<not> is_free e \<and> \<not> is_reduction e \<and> failed_dispatch e = (\<not> ok) \<and>
           same_members s s2 \<and> path_iteration_times s2 = path_iteration_times s"
proof -
  define s1 where "s1 = (if first_tile s then allocate_global_memory cfg dev ms p s else s)"
  obtain dims n nps where di: "data_init dev dims rtile n nps s1 = (ok, s2)"
    using assms unfolding start_of_tile_def s1_def by blast
  note d = data_init_result [OF di]
  obtain allocs where a: "trace s1 = trace s @ allocs"
    "if first_tile s then allocs \<noteq> [] \<and> list_all is_alloc allocs else allocs = []"
    "same_members s s1" "path_iteration_times s1 = path_iteration_times s"
  proof (cases "first_tile s")
    case True
    from allocate_global_memory_result(1) [where s = s and cfg = cfg and dev = dev and ms = ms and p = p] obtain evs where
      "trace (allocate_global_memory cfg dev ms p s) = trace s @ evs" "evs \<noteq> []"
      "list_all is_alloc evs" by blast
    then show ?thesis
      using that [of evs] True allocate_global_memory_result(2,3) [where s = s and cfg = cfg and dev = dev and ms = ms and p = p]
      by (simp add: s1_def)
  next
    case False
    then show ?thesis using that [of "[]"] by (simp add: s1_def)
  qed
  have "trace s2 = trace s @ allocs @ [Enqueue_data_init dims n nps ok]"
    using d(1) a(1) by simp
  moreover have "same_members s s2" using a(3) d(2) by (rule same_members_trans)
  ultimately show ?thesis using a(2,4) d(3) by (intro exI) auto
qed

lemma path_trace_summary:
  assumes run: "path_trace cfg dev rtile ms p s = Some (Inr (r, l, s'))"
  shows "\<exists>allocs evs. trace s' = trace s @ allocs @ evs \<and>
     (if first_tile s then allocs \<noteq> [] \<and> list_all is_alloc allocs else allocs = []) \<and>
     \<not> list_ex is_alloc evs \<and> \<not> list_ex is_free (allocs @ evs) \<and>
     (if r then \<not> list_ex failed_dispatch (allocs @ evs)
      else evs \<noteq> [] \<and> failed_dispatch (last evs) \<and>
           \<not> list_ex failed_dispatch (allocs @ butlast evs)) \<and>
     (canceled l \<longrightarrow> \<not> list_ex is_reduction (allocs @ evs)) \<and>
     kernels s' = kernels s \<and> current_max_closure s' = current_max_closure s \<and>
     first_tile s' = (first_tile s \<and> \<not> r)"
  using run
proof (cases rule: path_trace_cases)
  case (Init_failed ws s2)
  have st: "start_of_tile cfg dev rtile ms p ws s = (False, s2)"
    unfolding start_of_tile_def using Init_failed(2) .
  from start_of_tile_result [OF st] obtain allocs e where a:
    "trace s2 = trace s @ allocs @ [e]"
    "if first_tile s then allocs \<noteq> [] \<and> list_all is_alloc allocs else allocs = []"
    "\<not> is_alloc e" "\<not> is_free e" "\<not> is_reduction e" "failed_dispatch e" "same_members s s2"
    by auto
  have al: "list_all is_alloc allocs" using a(2) by (auto split: if_splits)
  show ?thesis
    using a al list_all_is_alloc [OF al] Init_failed(3,4)
    by (intro exI [of _ allocs] exI [of _ "[e]"]) (auto simp: same_members_def)
next
  case (Loop_failed ws s2)
  have st: "start_of_tile cfg dev rtile ms p ws s = (True, s2)"
    unfolding start_of_tile_def using Loop_failed(2) .
  from start_of_tile_result [OF st] obtain allocs e where a:
    "trace s2 = trace s @ allocs @ [e]"
    "if first_tile s then allocs \<noteq> [] \<and> list_all is_alloc allocs else allocs = []"
    "\<not> is_alloc e" "\<not> is_free e" "\<not> is_reduction e" "\<not> failed_dispatch e" "same_members s s2"
    by auto
  have al: "list_all is_alloc allocs" using a(2) by (auto split: if_splits)
  from path_iteration_loop_summary [OF Loop_failed(3)] obtain evs where e:
    "trace s' = trace s2 @ evs" "list_all pass_event evs" "same_members s2 s'"
    "evs \<noteq> []" "failed_dispatch (last evs)" "\<not> list_ex failed_dispatch (butlast evs)"
    by auto
  have "trace s' = trace s @ allocs @ (e # evs)" using a(1) e(1) by simp
  moreover have "same_members s s'" using a(7) e(3) by (rule same_members_trans)
  ultimately show ?thesis
    using a al list_all_is_alloc [OF al] e list_all_pass_event [OF e(2)] Loop_failed(4)
    by (intro exI [of _ allocs] exI [of _ "e # evs"]) (auto simp: same_members_def)
next
  case (Reduction_failed ws s2 s3)
  have st: "start_of_tile cfg dev rtile ms p ws s = (True, s2)"
    unfolding start_of_tile_def using Reduction_failed(2) .
  from start_of_tile_result [OF st] obtain allocs e where a:
    "trace s2 = trace s @ allocs @ [e]"
    "if first_tile s then allocs \<noteq> [] \<and> list_all is_alloc allocs else allocs = []"
    "\<not> is_alloc e" "\<not> is_free e" "\<not> is_reduction e" "\<not> failed_dispatch e" "same_members s s2"
    by auto
  have al: "list_all is_alloc allocs" using a(2) by (auto split: if_splits)
  from path_iteration_loop_summary [OF Reduction_failed(3)] obtain evs where e:
    "trace s3 = trace s2 @ evs" "list_all pass_event evs" "same_members s2 s3"
    "\<not> list_ex failed_dispatch evs"
    by auto
  from sum_all_radiance_result [OF Reduction_failed(4)] obtain dims where d:
    "\<not> canceled l" "trace s' = trace s3 @ [Enqueue Sum_all_radiance dims False]"
    "same_members s3 s'" by auto
  have "trace s' = trace s @ allocs @ (e # evs @ [Enqueue Sum_all_radiance dims False])"
    using a(1) e(1) d(2) by simp
  moreover have "same_members s s'" using a(7) e(3) d(3) by (blast intro: same_members_trans)
  ultimately show ?thesis
    using a al list_all_is_alloc [OF al] e list_all_pass_event [OF e(2)] Reduction_failed(5) d(1)
    by (intro exI [of _ allocs] exI [of _ "e # evs @ [Enqueue Sum_all_radiance dims False]"])
       (auto simp: same_members_def butlast_append)
next
  case (Done ws s2 s3 s4)
  have st: "start_of_tile cfg dev rtile ms p ws s = (True, s2)"
    unfolding start_of_tile_def using Done(2) .
  from start_of_tile_result [OF st] obtain allocs e where a:
    "trace s2 = trace s @ allocs @ [e]"
    "if first_tile s then allocs \<noteq> [] \<and> list_all is_alloc allocs else allocs = []"
    "\<not> is_alloc e" "\<not> is_free e" "\<not> is_reduction e" "\<not> failed_dispatch e" "same_members s s2"
    by auto
  have al: "list_all is_alloc allocs" using a(2) by (auto split: if_splits)
  from path_iteration_loop_summary [OF Done(3)] obtain evs where e:
    "trace s3 = trace s2 @ evs" "list_all pass_event evs" "same_members s2 s3"
    "\<not> list_ex failed_dispatch evs"
    by auto
  from sum_all_radiance_result [OF Done(4)] obtain red where d:
    "trace s4 = trace s3 @ red" "same_members s3 s4"
    "canceled l \<longrightarrow> red = []" "\<not> list_ex is_alloc red" "\<not> list_ex is_free red"
    "\<not> list_ex failed_dispatch red"
    by (auto simp: same_members_def)
  have "trace s' = trace s @ allocs @ (e # evs @ red)"
    using a(1) e(1) d(1) Done(5) by (simp add: finish_tile_result)
  moreover have "same_members s s4" using a(7) e(3) d(2) by (blast intro: same_members_trans)
  ultimately show ?thesis
    using a al list_all_is_alloc [OF al] e list_all_pass_event [OF e(2)] Done(5,6) d
    by (intro exI [of _ allocs] exI [of _ "e # evs @ red"])
       (auto simp: same_members_def finish_tile_result)
qed

subsection \<open>A dispatch that fails\<close>

text \<open>
  Claim C8. A call of \<^verbatim>\<open>path_trace\<close> returns false exactly when a
  dispatch (the data-init dispatch or an enqueue) returned false; that
  dispatch is then the last call the scheduler made, so that no further
  kernel is enqueued and nothing is retried. No buffer is freed, the kernel
  members and \<^verbatim>\<open>current_max_closure\<close> are unchanged, and on a false
  return \<^verbatim>\<open>first_tile\<close> is unchanged too. A pass of the loop asks for the
  false return exactly when one of its enqueues failed. The call does return:
  at once when the data-init dispatch fails, with the pass in which an
  enqueue fails, and when the enqueue of the reduction kernel fails.
\<close>

theorem failed_dispatch_returns_false:
  "(path_trace cfg dev rtile ms p s = Some (Inr (r, l, s')) \<longrightarrow>
      (r \<longleftrightarrow> \<not> list_ex failed_dispatch (events_since s s')) \<and>
      (\<not> r \<longrightarrow> events_since s s' \<noteq> [] \<and> failed_dispatch (last (events_since s s')) \<and>
               \<not> list_ex failed_dispatch (butlast (events_since s s'))) \<and>
      \<not> list_ex is_free (events_since s s') \<and>
      kernels s' = kernels s \<and> current_max_closure s' = current_max_closure s \<and>
      (\<not> r \<longrightarrow> first_tile s' = first_tile s)) \<and>
   (path_iteration_pass cfg dev gs ls l1 s1 = Inr (c, l2, s2) \<longrightarrow>
      (c = Return_false \<longleftrightarrow> list_ex failed_dispatch (events_since s1 s2))) \<and>
   (compute_work_size cfg rtile ms = Inr ws \<and>
    start_of_tile cfg dev rtile ms p ws s = (False, s3) \<longrightarrow>
      path_trace cfg dev rtile ms p s = Some (Inr (False, initial_locals s3, s3))) \<and>
   (compute_work_size cfg rtile ms = Inr ws \<and>
    start_of_tile cfg dev rtile ms p ws s = (True, s3) \<and>
    after_passes cfg dev (global_size_0 ws, global_size_1 ws)
      (SPLIT_KERNEL_LOCAL_SIZE_X cfg, SPLIT_KERNEL_LOCAL_SIZE_Y cfg) n (initial_locals s3) s3
      = Some (l4, s4) \<and>
    path_iteration_pass cfg dev (global_size_0 ws, global_size_1 ws)
      (SPLIT_KERNEL_LOCAL_SIZE_X cfg, SPLIT_KERNEL_LOCAL_SIZE_Y cfg) l4 s4
      = Inr (Return_false, l5, s5) \<longrightarrow>
      path_trace cfg dev rtile ms p s = Some (Inr (False, l5, s5))) \<and>
   (compute_work_size cfg rtile ms = Inr ws \<and>
    start_of_tile cfg dev rtile ms p ws s = (True, s3) \<and>
    path_iteration_loop cfg dev (global_size_0 ws, global_size_1 ws)
      (SPLIT_KERNEL_LOCAL_SIZE_X cfg, SPLIT_KERNEL_LOCAL_SIZE_Y cfg) (initial_locals s3) s3
      = Some (Inr (True, l6, s6)) \<and>
    sum_all_radiance dev rtile l6 s6 = Inr (False, s7) \<longrightarrow>
      path_trace cfg dev rtile ms p s = Some (Inr (False, l6, s7)))"
proof (intro conjI impI)
  assume run: "path_trace cfg dev rtile ms p s = Some (Inr (r, l, s'))"
  from path_trace_summary [OF run] obtain allocs evs where e:
    "trace s' = trace s @ allocs @ evs"
    "\<not> list_ex is_free (allocs @ evs)"
    "if r then \<not> list_ex failed_dispatch (allocs @ evs)
      else evs \<noteq> [] \<and> failed_dispatch (last evs) \<and>
           \<not> list_ex failed_dispatch (allocs @ butlast evs)"
    "kernels s' = kernels s" "current_max_closure s' = current_max_closure s"
    "first_tile s' = (first_tile s \<and> \<not> r)"
    by blast
  have es: "events_since s s' = allocs @ evs" using e(1) by (simp add: events_since_def)
  show "r \<longleftrightarrow> \<not> list_ex failed_dispatch (events_since s s')"
    unfolding es using e(3) by (cases r) (auto simp: list_ex_iff)
  show "events_since s s' \<noteq> []" if "\<not> r"
    unfolding es using e(3) that by auto
  show "failed_dispatch (last (events_since s s'))" if "\<not> r"
    unfolding es using e(3) that by auto
  show "\<not> list_ex failed_dispatch (butlast (events_since s s'))" if "\<not> r"
    unfolding es using e(3) that by (auto simp: butlast_append)
  show "\<not> list_ex is_free (events_since s s')" unfolding es by (rule e(2))
  show "kernels s' = kernels s" by (rule e(4))
  show "current_max_closure s' = current_max_closure s" by (rule e(5))
  show "first_tile s' = first_tile s" if "\<not> r" using e(6) that by simp
next
  assume pass: "path_iteration_pass cfg dev gs ls l1 s1 = Inr (c, l2, s2)"
  from path_iteration_pass_summary [OF pass] obtain evs where e:
    "trace s2 = trace s1 @ evs"
    "if c = Return_false
     then evs \<noteq> [] \<and> failed_dispatch (last evs) \<and> \<not> list_ex failed_dispatch (butlast evs)
     else \<not> list_ex failed_dispatch evs"
    by blast
  have "events_since s1 s2 = evs" using e(1) by (rule events_since_append)
  then show "c = Return_false \<longleftrightarrow> list_ex failed_dispatch (events_since s1 s2)"
    using e(2) by (auto simp: list_ex_iff split: if_splits)
next
  assume "compute_work_size cfg rtile ms = Inr ws \<and>
    start_of_tile cfg dev rtile ms p ws s = (False, s3)"
  then show "path_trace cfg dev rtile ms p s = Some (Inr (False, initial_locals s3, s3))"
    using path_trace_unfold [of cfg rtile ms ws dev p s False s3] by simp
next
  assume a: "compute_work_size cfg rtile ms = Inr ws \<and>
    start_of_tile cfg dev rtile ms p ws s = (True, s3) \<and>
    after_passes cfg dev (global_size_0 ws, global_size_1 ws)
      (SPLIT_KERNEL_LOCAL_SIZE_X cfg, SPLIT_KERNEL_LOCAL_SIZE_Y cfg) n (initial_locals s3) s3
      = Some (l4, s4) \<and>
    path_iteration_pass cfg dev (global_size_0 ws, global_size_1 ws)
      (SPLIT_KERNEL_LOCAL_SIZE_X cfg, SPLIT_KERNEL_LOCAL_SIZE_Y cfg) l4 s4
      = Inr (Return_false, l5, s5)"
  then have "path_iteration_loop cfg dev (global_size_0 ws, global_size_1 ws)
      (SPLIT_KERNEL_LOCAL_SIZE_X cfg, SPLIT_KERNEL_LOCAL_SIZE_Y cfg) (initial_locals s3) s3
      = Some (Inr (False, l5, s5))"
    using path_iteration_loop_returns [of cfg dev _ _ n "initial_locals s3" s3 l4 s4 Return_false l5 s5]
    by simp
  then show "path_trace cfg dev rtile ms p s = Some (Inr (False, l5, s5))"
    using a path_trace_unfold [of cfg rtile ms ws dev p s True s3] by simp
next
  assume a: "compute_work_size cfg rtile ms = Inr ws \<and>
    start_of_tile cfg dev rtile ms p ws s = (True, s3) \<and>
    path_iteration_loop cfg dev (global_size_0 ws, global_size_1 ws)
      (SPLIT_KERNEL_LOCAL_SIZE_X cfg, SPLIT_KERNEL_LOCAL_SIZE_Y cfg) (initial_locals s3) s3
      = Some (Inr (True, l6, s6)) \<and>
    sum_all_radiance dev rtile l6 s6 = Inr (False, s7)"
  then show "path_trace cfg dev rtile ms p s = Some (Inr (False, l6, s7))"
    using path_trace_unfold [of cfg rtile ms ws dev p s True s3] by simp
qed

text \<open>
  The theorem on the run whose fourth enqueue, background-buffer-update of
  the first path iteration, fails.
\<close>

theorem failed_dispatch_returns_false_witness:
  "\<exists>l s'. trace_small_tile failed_enqueue_script (loaded failed_enqueue_script) =
            Some (Inr (False, l, s')) \<and>
          last (trace s') =
            Enqueue Background_buffer_update \<lparr>global_size = (2, 1), local_size = (2, 1)\<rparr> False \<and>
          list_ex failed_dispatch (events_since (loaded failed_enqueue_script) s') \<and>
          failed_dispatch (last (events_since (loaded failed_enqueue_script) s')) \<and>
          \<not> list_ex failed_dispatch (butlast (events_since (loaded failed_enqueue_script) s')) \<and>
          \<not> list_ex is_free (events_since (loaded failed_enqueue_script) s') \<and>
          first_tile s'"
proof -
  have "\<exists>tr. outcome (trace_small_tile failed_enqueue_script (loaded failed_enqueue_script)) =
          Some (Inr (False, \<lparr>canceled = False, numHostIntervention = 0, numNextPathIterTimes = 2\<rparr>,
                     2, True, [0, 0], tr)) \<and>
          last tr =
            Enqueue Background_buffer_update \<lparr>global_size = (2, 1), local_size = (2, 1)\<rparr> False"
    by (simp add: run_eval)
  then obtain s' where run:
    "trace_small_tile failed_enqueue_script (loaded failed_enqueue_script) =
       Some (Inr (False, \<lparr>canceled = False, numHostIntervention = 0, numNextPathIterTimes = 2\<rparr>, s'))"
    and tr: "last (trace s') =
      Enqueue Background_buffer_update \<lparr>global_size = (2, 1), local_size = (2, 1)\<rparr> False"
    using outcome_Inr by blast
  have ft: "first_tile (loaded failed_enqueue_script)" by (simp add: run_eval)
  from failed_dispatch_returns_false
    [of small_config "scripted_device failed_enqueue_script" small_tile small_max 4
        "loaded failed_enqueue_script" False
        "\<lparr>canceled = False, numHostIntervention = 0, numNextPathIterTimes = 2\<rparr>" s']
    run ft
  have "list_ex failed_dispatch (events_since (loaded failed_enqueue_script) s') \<and>
        failed_dispatch (last (events_since (loaded failed_enqueue_script) s')) \<and>
        \<not> list_ex failed_dispatch (butlast (events_since (loaded failed_enqueue_script) s')) \<and>
        \<not> list_ex is_free (events_since (loaded failed_enqueue_script) s') \<and>
        first_tile s'"
    unfolding trace_small_tile_def by simp
  then show ?thesis using run tr by blast
qed

subsection \<open>Cancellation\<close>

lemma path_iteration_pass_last_poll:
  assumes "path_iteration_pass cfg dev gs ls l s = Inr (c, l', s')"
    and "last (trace s') = Get_cancel True"
  shows "c = Leave_loop \<and> canceled l'"
proof (cases "c = Return_false")
  case True
  from path_iteration_pass_summary [OF assms(1)] True obtain evs where
    "trace s' = trace s @ evs" "evs \<noteq> []" "failed_dispatch (last evs)" by auto
  then have "failed_dispatch (last (trace s'))" by simp
  then show ?thesis using assms(2) by simp
next
  case False
  define n where "n = (fst gs * snd gs) mod 2 ^ 64"
  from path_iteration_pass_synced [OF assms(1) False] obtain l1 s1 cp s3 where
    p: "poll_cancel dev s3 = (cp, s')"
    and r: "cp \<longrightarrow> c = Leave_loop \<and> canceled l'"
    unfolding n_def by (auto split: if_splits)
  have "last (trace s') = Get_cancel cp" using poll_cancel_result(1) [OF p] by simp
  then show ?thesis using assms(2) r by simp
qed


text \<open>
  What holds of cancellation on every run. When \<^verbatim>\<open>path_trace\<close> returns
  with the local \<^verbatim>\<open>canceled\<close> set, it has not enqueued the
  sum-all-radiance kernel. A pass whose poll after the activity scan answers
  true leaves the loop with \<^verbatim>\<open>canceled\<close> set, and \<^verbatim>\<open>path_trace\<close>
  then returns true. If \<^verbatim>\<open>get_cancel\<close>, once it has answered true,
  answers true again after the read-back, then the pass in which cancellation
  is first observed, also in the middle of a batch, leaves the loop, and every
  call that returns with cancellation observed returns true.
\<close>

lemma cancellation_skips_reduction:
  "(path_trace cfg dev rtile ms p s = Some (Inr (r, l, s')) \<and> canceled l \<longrightarrow>
      \<not> list_ex is_reduction (events_since s s') \<and> (cancel_is_sticky dev \<longrightarrow> r)) \<and>
   (path_iteration_pass cfg dev gs ls l1 s1 = Inr (c, l2, s2) \<and>
    last (trace s2) = Get_cancel True \<longrightarrow> c = Leave_loop \<and> canceled l2) \<and>
   (path_iteration_pass cfg dev gs ls l1 s1 = Inr (c, l2, s2) \<and> \<not> canceled l1 \<and> canceled l2 \<and>
    cancel_is_sticky dev \<longrightarrow> c = Leave_loop) \<and>
   (compute_work_size cfg rtile ms = Inr ws \<and>
    start_of_tile cfg dev rtile ms p ws s = (True, s3) \<and>
    after_passes cfg dev (global_size_0 ws, global_size_1 ws)
      (SPLIT_KERNEL_LOCAL_SIZE_X cfg, SPLIT_KERNEL_LOCAL_SIZE_Y cfg) n (initial_locals s3) s3
      = Some (l4, s4) \<and>
    path_iteration_pass cfg dev (global_size_0 ws, global_size_1 ws)
      (SPLIT_KERNEL_LOCAL_SIZE_X cfg, SPLIT_KERNEL_LOCAL_SIZE_Y cfg) l4 s4
      = Inr (Leave_loop, l5, s5) \<and>
    canceled l5 \<longrightarrow>
      path_trace cfg dev rtile ms p s = Some (Inr (True, l5, finish_tile cfg l5 s5)))"
proof -
  have c1: "\<not> list_ex is_reduction (events_since s s') \<and> (cancel_is_sticky dev \<longrightarrow> r)"
    if a: "path_trace cfg dev rtile ms p s = Some (Inr (r, l, s')) \<and> canceled l"
  proof -
    from a have run: "path_trace cfg dev rtile ms p s = Some (Inr (r, l, s'))"
      and cl: "canceled l" by simp_all
    from path_trace_summary [OF run] obtain allocs evs where e:
      "trace s' = trace s @ allocs @ evs" "canceled l \<longrightarrow> \<not> list_ex is_reduction (allocs @ evs)"
      by blast
    have "events_since s s' = allocs @ evs" using e(1) by (simp add: events_since_def)
    then have nr: "\<not> list_ex is_reduction (events_since s s')" using e(2) cl by simp
    have r if st: "cancel_is_sticky dev"
      using run
    proof (cases rule: path_trace_cases)
      case (Init_failed ws s2)
      then show ?thesis using cl by simp
    next
      case (Loop_failed ws s2)
      from path_iteration_loop_canceled [OF Loop_failed(3)] st cl show ?thesis by simp
    next
      case (Reduction_failed ws s2 s3)
      from sum_all_radiance_result [OF Reduction_failed(4)] cl show ?thesis by simp
    next
      case (Done ws s2 s3 s4)
      then show ?thesis by simp
    qed
    then show ?thesis using nr by simp
  qed
  have c2: "c = Leave_loop \<and> canceled l2"
    if "path_iteration_pass cfg dev gs ls l1 s1 = Inr (c, l2, s2) \<and>
        last (trace s2) = Get_cancel True"
    using that path_iteration_pass_last_poll by blast
  have c3: "c = Leave_loop"
    if a: "path_iteration_pass cfg dev gs ls l1 s1 = Inr (c, l2, s2) \<and> \<not> canceled l1 \<and>
        canceled l2 \<and> cancel_is_sticky dev"
  proof -
    from a have pass: "path_iteration_pass cfg dev gs ls l1 s1 = Inr (c, l2, s2)" by simp
    from path_iteration_pass_canceled [OF pass] a show ?thesis by (cases c) auto
  qed
  have c4: "path_trace cfg dev rtile ms p s = Some (Inr (True, l5, finish_tile cfg l5 s5))"
    if a: "compute_work_size cfg rtile ms = Inr ws \<and>
      start_of_tile cfg dev rtile ms p ws s = (True, s3) \<and>
      after_passes cfg dev (global_size_0 ws, global_size_1 ws)
        (SPLIT_KERNEL_LOCAL_SIZE_X cfg, SPLIT_KERNEL_LOCAL_SIZE_Y cfg) n (initial_locals s3) s3
        = Some (l4, s4) \<and>
      path_iteration_pass cfg dev (global_size_0 ws, global_size_1 ws)
        (SPLIT_KERNEL_LOCAL_SIZE_X cfg, SPLIT_KERNEL_LOCAL_SIZE_Y cfg) l4 s4
        = Inr (Leave_loop, l5, s5) \<and>
      canceled l5"
  proof -
    from a have "path_iteration_loop cfg dev (global_size_0 ws, global_size_1 ws)
        (SPLIT_KERNEL_LOCAL_SIZE_X cfg, SPLIT_KERNEL_LOCAL_SIZE_Y cfg) (initial_locals s3) s3
        = Some (Inr (True, l5, s5))"
      using path_iteration_loop_returns
        [of cfg dev _ _ n "initial_locals s3" s3 l4 s4 Leave_loop l5 s5] by simp
    moreover have "sum_all_radiance dev rtile l5 s5 = Inr (True, s5)"
      using a by (simp add: sum_all_radiance_def)
    ultimately show ?thesis
      using a path_trace_unfold [of cfg rtile ms ws dev p s True s3] by simp
  qed
  from c1 c2 c3 c4 show ?thesis by blast
qed

text \<open>
  The run with a cancel request that is there from the first poll on, while
  the lanes are still active.
\<close>

lemma canceled_run_skips_reduction:
  "cancel_is_sticky (scripted_device canceled_script) \<and>
   (\<exists>l s'. trace_small_tile canceled_script (loaded canceled_script) = Some (Inr (True, l, s')) \<and>
           canceled l \<and>
           \<not> list_ex is_reduction (events_since (loaded canceled_script) s'))"
proof -
  have st: "cancel_is_sticky (scripted_device canceled_script)"
    by (simp add: cancel_is_sticky_def scripted_device_def canceled_script_def)
  have "\<exists>tr. outcome (trace_small_tile canceled_script (loaded canceled_script)) =
          Some (Inr (True, \<lparr>canceled = True, numHostIntervention = 1, numNextPathIterTimes = 4\<rparr>,
                     4, False, [0, 0], tr))"
    by (simp add: run_eval)
  then obtain s' where run:
    "trace_small_tile canceled_script (loaded canceled_script) =
       Some (Inr (True, \<lparr>canceled = True, numHostIntervention = 1, numNextPathIterTimes = 4\<rparr>, s'))"
    using outcome_Inr by blast
  from cancellation_skips_reduction
    [of small_config "scripted_device canceled_script" small_tile small_max 4
        "loaded canceled_script" True
        "\<lparr>canceled = True, numHostIntervention = 1, numNextPathIterTimes = 4\<rparr>" s']
    run
  have "\<not> list_ex is_reduction (events_since (loaded canceled_script) s')"
    unfolding trace_small_tile_def by simp
  then show ?thesis using st run by auto
qed

section \<open>Allocation of the lane buffers\<close>

text \<open>
  The buffers are allocated by the calls that start with \<^verbatim>\<open>first_tile\<close>
  set, and by no other call; a call that returns true clears the flag, and no
  call sets it. So once a call has returned true, no later call allocates.
\<close>

lemma allocation_gated_by_first_tile:
  assumes "path_trace cfg dev rtile ms p s = Some (Inr (r, l, s'))"
  shows "(first_tile s \<longrightarrow> list_ex is_alloc (events_since s s')) \<and>
         (\<not> first_tile s \<longrightarrow> \<not> list_ex is_alloc (events_since s s') \<and> \<not> first_tile s') \<and>
         (r \<longrightarrow> \<not> first_tile s')"
proof -
  from path_trace_summary [OF assms] obtain allocs evs where e:
    "trace s' = trace s @ allocs @ evs"
    "if first_tile s then allocs \<noteq> [] \<and> list_all is_alloc allocs else allocs = []"
    "\<not> list_ex is_alloc evs" "first_tile s' = (first_tile s \<and> \<not> r)"
    by blast
  have es: "events_since s s' = allocs @ evs" using e(1) by (simp add: events_since_def)
  show ?thesis
    unfolding es using e(2,3,4)
    by (cases allocs) (auto split: if_splits)
qed

text \<open>
  Two calls in a row on a device that has all its lanes inactive at the first
  read-back: the six buffers are allocated in the first call only.
\<close>

lemma allocation_once_after_successful_first_call:
  "outcome (two_small_tiles ideal_script) =
     Some (Inr (True,
       \<lparr>canceled = False, numHostIntervention = 0, numNextPathIterTimes = 2\<rparr>, 2, False, [1, 1],
       [Mem_alloc Work_pool_wgs 4, Mem_alloc Queue_index 16, Mem_alloc Use_queues_flag 1,
        Mem_alloc Kgbuffer 1024, Mem_alloc Ray_state 2, Mem_alloc Split_data 8,
        Enqueue_data_init \<lparr>global_size = (2, 1), local_size = (2, 1)\<rparr> 2 1 True] @
       round_events (path_iteration_kernels (2, 1) (2, 1)) @ [Get_cancel False] @
       round_events (path_iteration_kernels (2, 1) (2, 1)) @
       [Get_cancel False, Mem_copy_from Ray_state 2, Get_cancel False,
        Enqueue Sum_all_radiance \<lparr>global_size = (16, 16), local_size = (16, 16)\<rparr> True,
        Enqueue_data_init \<lparr>global_size = (2, 1), local_size = (2, 1)\<rparr> 2 1 True] @
       round_events (path_iteration_kernels (2, 1) (2, 1)) @ [Get_cancel False] @
       round_events (path_iteration_kernels (2, 1) (2, 1)) @
       [Get_cancel False, Mem_copy_from Ray_state 2, Get_cancel False,
        Enqueue Sum_all_radiance \<lparr>global_size = (16, 16), local_size = (16, 16)\<rparr> True]))"
  by (simp add: two_small_tiles_def run_eval round_events_def)

text \<open>
  Claim C5 fails where the first call returns false: on a device whose
  data-init dispatch fails, the first call allocates the six buffers and
  returns false at line 163, before line 267 clears \<^verbatim>\<open>first_tile\<close>; the
  second call finds the flag still set and allocates all six buffers again.
  The comment of line 120 has the memory allocated once.
\<close>

theorem allocation_repeated_after_failed_first_call:
  "outcome (two_small_tiles failed_init_script) =
     Some (Inr (False,
       \<lparr>canceled = False, numHostIntervention = 0, numNextPathIterTimes = 2\<rparr>, 2, True, [0, 0],
       [Mem_alloc Work_pool_wgs 4, Mem_alloc Queue_index 16, Mem_alloc Use_queues_flag 1,
        Mem_alloc Kgbuffer 1024, Mem_alloc Ray_state 2, Mem_alloc Split_data 8,
        Enqueue_data_init \<lparr>global_size = (2, 1), local_size = (2, 1)\<rparr> 2 1 False,
        Mem_alloc Work_pool_wgs 4, Mem_alloc Queue_index 16, Mem_alloc Use_queues_flag 1,
        Mem_alloc Kgbuffer 1024, Mem_alloc Ray_state 2, Mem_alloc Split_data 8,
        Enqueue_data_init \<lparr>global_size = (2, 1), local_size = (2, 1)\<rparr> 2 1 False]))"
  by (simp add: two_small_tiles_def run_eval)

section \<open>The round budget across tiles\<close>

text \<open>
  Lines 172 to 173, 218 to 225 and 253 to 265: the budget with which the next
  tile starts, and long runs of the scripted device.
\<close>

lemma path_trace_budget:
  assumes "path_trace cfg dev rtile ms p s = Some (Inr (r, l, s'))"
  shows "numNextPathIterTimes l =
           path_iteration_times s + numHostIntervention l * PATH_ITER_INC_FACTOR cfg"
    and "r \<longrightarrow> path_iteration_times s' = next_path_iteration_times cfg l"
    and "\<not> r \<longrightarrow> path_iteration_times s' = path_iteration_times s \<or>
               path_iteration_times s' = PATH_ITER_INC_FACTOR cfg"
proof -
  have "numNextPathIterTimes l =
           path_iteration_times s + numHostIntervention l * PATH_ITER_INC_FACTOR cfg \<and>
        (r \<longrightarrow> path_iteration_times s' = next_path_iteration_times cfg l) \<and>
        (\<not> r \<longrightarrow> path_iteration_times s' = path_iteration_times s \<or>
               path_iteration_times s' = PATH_ITER_INC_FACTOR cfg)"
    using assms
  proof (cases rule: path_trace_cases)
    case (Init_failed ws s2)
    from data_init_result(3) [OF Init_failed(2)]
    have "path_iteration_times s2 = path_iteration_times s"
      by (simp add: allocate_global_memory_result(3))
    then show ?thesis using Init_failed by simp
  next
    case (Loop_failed ws s2)
    from data_init_result(3) [OF Loop_failed(2)]
    have p: "path_iteration_times s2 = path_iteration_times s"
      by (simp add: allocate_global_memory_result(3))
    from path_iteration_loop_budget [OF Loop_failed(3)] p Loop_failed(4)
    show ?thesis by auto
  next
    case (Reduction_failed ws s2 s3)
    from data_init_result(3) [OF Reduction_failed(2)]
    have p: "path_iteration_times s2 = path_iteration_times s"
      by (simp add: allocate_global_memory_result(3))
    from sum_all_radiance_result [OF Reduction_failed(4)]
    have q: "path_iteration_times s' = path_iteration_times s3" by auto
    from path_iteration_loop_budget [OF Reduction_failed(3)] p q Reduction_failed(5)
    show ?thesis by auto
  next
    case (Done ws s2 s3 s4)
    from data_init_result(3) [OF Done(2)]
    have p: "path_iteration_times s2 = path_iteration_times s"
      by (simp add: allocate_global_memory_result(3))
    from path_iteration_loop_budget [OF Done(3)] p Done(5,6)
    show ?thesis by (auto simp: finish_tile_result)
  qed
  then show "numNextPathIterTimes l =
           path_iteration_times s + numHostIntervention l * PATH_ITER_INC_FACTOR cfg"
    and "r \<longrightarrow> path_iteration_times s' = next_path_iteration_times cfg l"
    and "\<not> r \<longrightarrow> path_iteration_times s' = path_iteration_times s \<or>
               path_iteration_times s' = PATH_ITER_INC_FACTOR cfg"
    by simp_all
qed

text \<open>The next budget, in natural numbers, when nothing wraps around.\<close>

lemma next_budget_decrease:
  fixes b inc :: "32 word"
  assumes "0 < unat b" "unat inc dvd unat b"
  shows "unat (if b - inc \<le> 0 then inc else b - inc) = max (unat inc) (unat b - unat inc)"
    and "inc \<le> b" and "unat (b - inc) = unat b - unat inc"
proof -
  obtain m where m: "unat b = unat inc * m" using assms(2) by (auto simp: dvd_def)
  have mpos: "0 < m" "0 < unat inc" using assms(1) m by (cases m; cases "unat inc"; simp)+
  have le: "unat inc \<le> unat b" using m mpos by simp
  then show ib: "inc \<le> b" by (simp add: word_le_nat_alt)
  show sub: "unat (b - inc) = unat b - unat inc" using ib by (rule unat_sub)
  show "unat (if b - inc \<le> 0 then inc else b - inc) = max (unat inc) (unat b - unat inc)"
  proof (cases "b - inc \<le> 0")
    case True
    then have "b - inc = 0" by simp
    then have "unat b - unat inc = 0" using sub by simp
    then show ?thesis using True by simp
  next
    case False
    then have "unat (b - inc) \<noteq> 0" by (simp add: unat_eq_0)
    then have "unat b - unat inc \<noteq> 0" using sub by simp
    then have "2 \<le> m" using m by (cases m; cases "m - 1"; simp)
    then obtain j where j: "m = Suc (Suc j)" by (metis Suc_le_D numeral_2_eq_2 Suc_le_mono)
    have "unat inc \<le> unat b - unat inc" unfolding m j by simp
    then show ?thesis using False sub by simp
  qed
qed

lemma next_budget_increase:
  fixes b k inc :: "32 word"
  assumes "unat b + unat k * unat inc < 2 ^ 32"
  shows "unat (b + k * inc) = unat b + unat k * unat inc"
proof -
  have "unat k * unat inc < 2 ^ 32" using assms by simp
  then have "unat (k * inc) = unat k * unat inc"
    using unat_mult_lem [of k inc] by simp
  moreover have "unat b + unat (k * inc) < 2 ^ 32" using assms calculation by simp
  then have "unat (b + k * inc) = unat b + unat (k * inc)"
    using unat_add_lem [of b "k * inc"] by simp
  ultimately show ?thesis by simp
qed


lemma busy_for_simps:
  "enqueue_ok (busy_for N) = (\<lambda>i. True)" "cancel_at (busy_for N) = (\<lambda>i. False)"
  "init_ok (busy_for N)" "active_syncs (busy_for N) = N"
  by (simp_all add: busy_for_def ideal_script_def)

lemma busy_enqueue_kernels:
  assumes "\<forall>name. kernels s name = Some name"
  shows "\<exists>s'. enqueue_kernels (scripted_device (busy_for N)) ks s = Inr (True, s') \<and>
              syncs (world s') = syncs (world s)"
  using assms
proof (induction ks arbitrary: s)
  case Nil
  then show ?case by simp
next
  case (Cons k ks)
  obtain name dims where k: "k = (name, dims)" by (cases k)
  define s1 where "s1 = s\<lparr>world := (world s)\<lparr>enqueues := Suc (enqueues (world s))\<rparr>,
                          trace := trace s @ [Enqueue name dims True]\<rparr>"
  have e: "ENQUEUE_SPLIT_KERNEL (scripted_device (busy_for N)) name dims s = Inr (True, s1)"
    using Cons.prems
    by (simp add: ENQUEUE_SPLIT_KERNEL_def scripted_device_def busy_for_simps s1_def)
  have "\<forall>name. kernels s1 name = Some name" using Cons.prems by (simp add: s1_def)
  from Cons.IH [OF this] obtain s' where
    "enqueue_kernels (scripted_device (busy_for N)) ks s1 = Inr (True, s')"
    "syncs (world s') = syncs (world s1)" by blast
  then show ?case using e by (auto simp: k s1_def)
qed

lemma busy_path_iterations:
  assumes "\<forall>name. kernels s name = Some name"
  shows "\<exists>s'. path_iterations (scripted_device (busy_for N)) ks n l s = Inr (True, l, s') \<and>
              syncs (world s') = syncs (world s) \<and> kernels s' = kernels s \<and>
              ray_state s' = ray_state s \<and> path_iteration_times s' = path_iteration_times s \<and>
              first_tile s' = first_tile s"
  using assms
proof (induction n arbitrary: s)
  case 0
  show ?case by simp
next
  case (Suc n)
  from busy_enqueue_kernels [OF Suc.prems] obtain s1 where
    e: "enqueue_kernels (scripted_device (busy_for N)) ks s = Inr (True, s1)"
    and w1: "syncs (world s1) = syncs (world s)" by blast
  note e' = enqueue_kernels_True [OF e]
  define s2 where "s2 = s1\<lparr>world := (world s1)\<lparr>polls := Suc (polls (world s1))\<rparr>,
                           trace := trace s1 @ [Get_cancel False]\<rparr>"
  have p: "poll_cancel (scripted_device (busy_for N)) s1 = (False, s2)"
    by (simp add: poll_cancel_def scripted_device_def busy_for_simps s2_def)
  have k2: "\<forall>name. kernels s2 name = Some name"
    using Suc.prems e' by (simp add: s2_def same_members_def)
  from Suc.IH [OF k2] obtain s' where r:
    "path_iterations (scripted_device (busy_for N)) ks n l s2 = Inr (True, l, s')"
    "syncs (world s') = syncs (world s2)" "kernels s' = kernels s2"
    "ray_state s' = ray_state s2" "path_iteration_times s' = path_iteration_times s2"
    "first_tile s' = first_tile s2" by blast
  have "path_iterations (scripted_device (busy_for N)) ks (Suc n) l s = Inr (True, l, s')"
    using e p r(1) by simp
  then show ?case using r e' w1 by (auto simp: s2_def same_members_def)
qed


lemma busy_pass:
  assumes k: "\<forall>name. kernels s name = Some name" and len: "length (ray_state s) = 2"
  shows "\<exists>s'. path_iteration_pass small_config (scripted_device (busy_for N)) (2, 1) (2, 1) l s =
           Inr (if syncs (world s) < N then Next_pass else Leave_loop,
                if syncs (world s) < N
                then l\<lparr>numHostIntervention := numHostIntervention l + 1,
                       numNextPathIterTimes := numNextPathIterTimes l + 2\<rparr>
                else l, s') \<and>
         (\<forall>name. kernels s' name = Some name) \<and> length (ray_state s') = 2 \<and>
         syncs (world s') = Suc (syncs (world s)) \<and> first_tile s' = first_tile s \<and>
         path_iteration_times s' = (if syncs (world s) < N then 2 else path_iteration_times s)"
proof -
  define dev where "dev = scripted_device (busy_for N)"
  from busy_path_iterations [OF k, of N "path_iteration_kernels (2, 1) (2, 1)"
      "unat (path_iteration_times s)" l]
  obtain s1 where b:
    "path_iterations dev (path_iteration_kernels (2, 1) (2, 1)) (unat (path_iteration_times s)) l s
     = Inr (True, l, s1)"
    and s1: "syncs (world s1) = syncs (world s)" "kernels s1 = kernels s"
    "ray_state s1 = ray_state s" "path_iteration_times s1 = path_iteration_times s"
    "first_tile s1 = first_tile s"
    unfolding dev_def by blast
  obtain a b0 where rs: "ray_state s = [a, b0]"
    using len by (cases "ray_state s"; cases "tl (ray_state s)") auto
  define byte :: "8 word" where "byte = (if syncs (world s) < N then 0 else 1)"
  define s2 where "s2 = s1\<lparr>ray_state := [byte, byte],
                           world := (world s1)\<lparr>syncs := Suc (syncs (world s1))\<rparr>,
                           trace := trace s1 @ [Mem_copy_from Ray_state 2]\<rparr>"
  have c: "copy_ray_state dev 2 s1 = s2"
    unfolding copy_ray_state_def dev_def s2_def byte_def
    by (simp add: scripted_device_def busy_for_simps s1 rs upt_conv_Cons)
  have act: "active_rays_available small_config 2 (ray_state s2) \<longleftrightarrow> syncs (world s) < N"
    by (simp add: active_rays_available_def s2_def byte_def small_config_def)
  define s3 where "s3 = (if syncs (world s) < N then s2\<lparr>path_iteration_times := 2\<rparr> else s2)"
  define s4 where "s4 = s3\<lparr>world := (world s3)\<lparr>polls := Suc (polls (world s3))\<rparr>,
                           trace := trace s3 @ [Get_cancel False]\<rparr>"
  have p: "poll_cancel dev s3 = (False, s4)"
    by (simp add: poll_cancel_def dev_def scripted_device_def busy_for_simps s4_def)
  have len1: "\<not> length (ray_state s1) < 2" using s1(3) len by simp
  have inc: "PATH_ITER_INC_FACTOR small_config = 2" by (simp add: small_config_def)
  have "path_iteration_pass small_config dev (2, 1) (2, 1) l s =
           Inr (if syncs (world s) < N then Next_pass else Leave_loop,
                if syncs (world s) < N
                then l\<lparr>numHostIntervention := numHostIntervention l + 1,
                       numNextPathIterTimes := numNextPathIterTimes l + 2\<rparr>
                else l, s4)"
    unfolding path_iteration_pass_def b
    using len1 c act p inc
    by (cases "syncs (world s) < N") (simp_all add: Let_def s3_def)
  moreover have "(\<forall>name. kernels s4 name = Some name) \<and> length (ray_state s4) = 2 \<and>
         syncs (world s4) = Suc (syncs (world s)) \<and> first_tile s4 = first_tile s \<and>
         path_iteration_times s4 = (if syncs (world s) < N then 2 else path_iteration_times s)"
    using k s1 by (simp add: s4_def s3_def s2_def)
  ultimately show ?thesis unfolding dev_def by blast
qed


lemma busy_after_passes:
  assumes "\<forall>name. kernels s name = Some name" and "length (ray_state s) = 2"
    and "syncs (world s) + n \<le> N"
  shows "\<exists>s'. after_passes small_config (scripted_device (busy_for N)) (2, 1) (2, 1) n l s =
           Some (l\<lparr>numHostIntervention := numHostIntervention l + of_nat n,
                   numNextPathIterTimes := numNextPathIterTimes l + of_nat n * 2\<rparr>, s') \<and>
         (\<forall>name. kernels s' name = Some name) \<and> length (ray_state s') = 2 \<and>
         syncs (world s') = syncs (world s) + n \<and> first_tile s' = first_tile s"
  using assms
proof (induction n arbitrary: l s)
  case 0
  show ?case using "0.prems" by simp
next
  case (Suc n)
  have lt: "syncs (world s) < N" using Suc.prems(3) by simp
  define l1 where "l1 = l\<lparr>numHostIntervention := numHostIntervention l + 1,
                          numNextPathIterTimes := numNextPathIterTimes l + 2\<rparr>"
  from busy_pass [OF Suc.prems(1,2), of N l] lt obtain s1 where
    p: "path_iteration_pass small_config (scripted_device (busy_for N)) (2, 1) (2, 1) l s =
          Inr (Next_pass, l1, s1)"
    and s1: "\<forall>name. kernels s1 name = Some name" "length (ray_state s1) = 2"
      "syncs (world s1) = Suc (syncs (world s))" "first_tile s1 = first_tile s"
    unfolding l1_def by auto
  have "syncs (world s1) + n \<le> N" using s1(3) Suc.prems(3) by simp
  from Suc.IH [OF s1(1,2) this, of l1] obtain s' where r:
    "after_passes small_config (scripted_device (busy_for N)) (2, 1) (2, 1) n l1 s1 =
       Some (l1\<lparr>numHostIntervention := numHostIntervention l1 + of_nat n,
                numNextPathIterTimes := numNextPathIterTimes l1 + of_nat n * 2\<rparr>, s')"
    "\<forall>name. kernels s' name = Some name" "length (ray_state s') = 2"
    "syncs (world s') = syncs (world s1) + n" "first_tile s' = first_tile s1"
    by blast
  have "l1\<lparr>numHostIntervention := numHostIntervention l1 + of_nat n,
           numNextPathIterTimes := numNextPathIterTimes l1 + of_nat n * 2\<rparr> =
        l\<lparr>numHostIntervention := numHostIntervention l + of_nat (Suc n),
          numNextPathIterTimes := numNextPathIterTimes l + of_nat (Suc n) * 2\<rparr>"
    by (simp add: l1_def algebra_simps)
  then have "after_passes small_config (scripted_device (busy_for N)) (2, 1) (2, 1) (Suc n) l s =
       Some (l\<lparr>numHostIntervention := numHostIntervention l + of_nat (Suc n),
                numNextPathIterTimes := numNextPathIterTimes l + of_nat (Suc n) * 2\<rparr>, s')"
    using p r(1) by simp
  then show ?case using r(2,3,4,5) s1(3,4) by (intro exI [of _ s']) simp
qed

lemma busy_loop:
  assumes "\<forall>name. kernels s name = Some name" and "length (ray_state s) = 2"
  shows "\<exists>s'. path_iteration_loop small_config (scripted_device (busy_for N)) (2, 1) (2, 1) l s =
           Some (Inr (True,
             l\<lparr>numHostIntervention := numHostIntervention l + of_nat (N - syncs (world s)),
               numNextPathIterTimes :=
                 numNextPathIterTimes l + of_nat (N - syncs (world s)) * 2\<rparr>, s')) \<and>
         (\<forall>name. kernels s' name = Some name) \<and> length (ray_state s') = 2 \<and>
         N < syncs (world s') \<and> first_tile s' = first_tile s"
proof -
  define n where "n = N - syncs (world s)"
  define l1 where "l1 = l\<lparr>numHostIntervention := numHostIntervention l + of_nat n,
                          numNextPathIterTimes := numNextPathIterTimes l + of_nat n * 2\<rparr>"
  have "\<exists>s1. after_passes small_config (scripted_device (busy_for N)) (2, 1) (2, 1) n l s =
           Some (l1, s1) \<and>
         (\<forall>name. kernels s1 name = Some name) \<and> length (ray_state s1) = 2 \<and>
         N \<le> syncs (world s1) \<and> first_tile s1 = first_tile s"
  proof (cases "syncs (world s) \<le> N")
    case True
    then have "syncs (world s) + n \<le> N" by (simp add: n_def)
    from busy_after_passes [OF assms this, of l] True show ?thesis
      unfolding l1_def n_def by auto
  next
    case False
    then have "n = 0" by (simp add: n_def)
    then show ?thesis using assms False by (simp add: l1_def)
  qed
  then obtain s1 where a:
    "after_passes small_config (scripted_device (busy_for N)) (2, 1) (2, 1) n l s = Some (l1, s1)"
    and s1: "\<forall>name. kernels s1 name = Some name" "length (ray_state s1) = 2"
      "N \<le> syncs (world s1)" "first_tile s1 = first_tile s"
    by blast
  from busy_pass [OF s1(1,2), of N l1] s1(3) obtain s' where
    p: "path_iteration_pass small_config (scripted_device (busy_for N)) (2, 1) (2, 1) l1 s1 =
          Inr (Leave_loop, l1, s')"
    and s': "\<forall>name. kernels s' name = Some name" "length (ray_state s') = 2"
      "syncs (world s') = Suc (syncs (world s1))" "first_tile s' = first_tile s1"
    by auto
  from path_iteration_loop_returns [OF a p]
  have "path_iteration_loop small_config (scripted_device (busy_for N)) (2, 1) (2, 1) l s =
          Some (Inr (True, l1, s'))" by simp
  then show ?thesis using s' s1(3,4) unfolding l1_def n_def by (intro exI [of _ s']) simp
qed


lemma scripted_allocate_world:
  "world (allocate_global_memory cfg (scripted_device sc) ms p s) = world s"
  unfolding allocate_global_memory_def Let_def
  by (simp add: alloc_buffer_def scripted_device_def)

lemma busy_start_of_tile:
  assumes k: "\<forall>name. kernels s name = Some name"
    and len: "first_tile s \<or> length (ray_state s) = 2"
  shows "\<exists>s2. start_of_tile small_config (scripted_device (busy_for N)) small_tile small_max 4
                 \<lparr>global_size_0 = 2, global_size_1 = 1, num_parallel_samples = 1\<rparr> s = (True, s2) \<and>
              (\<forall>name. kernels s2 name = Some name) \<and> length (ray_state s2) = 2 \<and>
              world s2 = world s \<and> path_iteration_times s2 = path_iteration_times s \<and>
              first_tile s2 = first_tile s"
proof -
  define s1 where
    "s1 = (if first_tile s
           then allocate_global_memory small_config (scripted_device (busy_for N)) small_max 4 s
           else s)"
  have two: "to_size_t (sint (x small_max) * sint (y small_max)) = 2"
    by (simp add: small_max_def to_size_t_def)
  have s1: "kernels s1 = kernels s" "length (ray_state s1) = 2" "world s1 = world s"
    "path_iteration_times s1 = path_iteration_times s" "first_tile s1 = first_tile s"
    using len
      allocate_global_memory_result(2,3,4)
        [where s = s and cfg = small_config and dev = "scripted_device (busy_for N)"
           and ms = small_max and p = 4]
      scripted_allocate_world [of small_config "busy_for N" small_max 4 s]
    by (auto simp: s1_def same_members_def two)
  show ?thesis
    unfolding start_of_tile_def s1_def [symmetric]
    using s1 k
    by (simp add: data_init_def scripted_device_def busy_for_simps)
qed

lemma busy_tile:
  assumes k: "\<forall>name. kernels s name = Some name"
    and len: "first_tile s \<or> length (ray_state s) = 2"
  shows "\<exists>s'. trace_small_tile (busy_for N) s =
           Some (Inr (True,
             \<lparr>canceled = False, numHostIntervention = of_nat (N - syncs (world s)),
              numNextPathIterTimes =
                path_iteration_times s + of_nat (N - syncs (world s)) * 2\<rparr>, s')) \<and>
         (\<forall>name. kernels s' name = Some name) \<and> length (ray_state s') = 2 \<and>
         N < syncs (world s') \<and> \<not> first_tile s' \<and>
         path_iteration_times s' =
           next_path_iteration_times small_config
             \<lparr>canceled = False, numHostIntervention = of_nat (N - syncs (world s)),
              numNextPathIterTimes =
                path_iteration_times s + of_nat (N - syncs (world s)) * 2\<rparr>"
proof -
  define l where
    "l = \<lparr>canceled = False, numHostIntervention = of_nat (N - syncs (world s)),
          numNextPathIterTimes = path_iteration_times s + of_nat (N - syncs (world s)) * 2\<rparr>"
  have ws: "compute_work_size small_config small_tile small_max =
              Inr \<lparr>global_size_0 = 2, global_size_1 = 1, num_parallel_samples = 1\<rparr>"
    by (simp add: run_eval)
  from busy_start_of_tile [OF k len, of N] obtain s2 where
    st: "start_of_tile small_config (scripted_device (busy_for N)) small_tile small_max 4
           \<lparr>global_size_0 = 2, global_size_1 = 1, num_parallel_samples = 1\<rparr> s = (True, s2)"
    and s2: "\<forall>name. kernels s2 name = Some name" "length (ray_state s2) = 2"
      "world s2 = world s" "path_iteration_times s2 = path_iteration_times s"
    by blast
  have l0: "(initial_locals s2)
              \<lparr>numHostIntervention :=
                 numHostIntervention (initial_locals s2) + of_nat (N - syncs (world s2)),
               numNextPathIterTimes :=
                 numNextPathIterTimes (initial_locals s2) + of_nat (N - syncs (world s2)) * 2\<rparr> = l"
    by (simp add: initial_locals_def l_def s2(3,4))
  from busy_loop [OF s2(1,2), of N "initial_locals s2"] obtain s3 where
    lp: "path_iteration_loop small_config (scripted_device (busy_for N)) (2, 1) (2, 1)
           (initial_locals s2) s2 = Some (Inr (True, l, s3))"
    and s3: "\<forall>name. kernels s3 name = Some name" "length (ray_state s3) = 2"
      "N < syncs (world s3)"
    unfolding l0 by blast
  define s4 where
    "s4 = s3\<lparr>world := (world s3)\<lparr>enqueues := Suc (enqueues (world s3))\<rparr>,
             trace := trace s3 @
               [Enqueue Sum_all_radiance
                  (KernelDimensions (round_up_local (sint (tile_w small_tile)) 16,
                                     round_up_local (sint (tile_h small_tile)) 16) (16, 16))
                  True]\<rparr>"
  have sm: "sum_all_radiance (scripted_device (busy_for N)) small_tile l s3 = Inr (True, s4)"
    using s3(1)
    by (simp add: sum_all_radiance_def ENQUEUE_SPLIT_KERNEL_def scripted_device_def
        busy_for_simps s4_def l_def)
  have pt: "trace_small_tile (busy_for N) s = Some (Inr (True, l, finish_tile small_config l s4))"
    unfolding trace_small_tile_def
    using path_trace_unfold [OF ws st] lp sm
    by (simp add: small_config_def)
  show ?thesis
    unfolding l_def [symmetric]
    using pt s3 by (intro exI [of _ "finish_tile small_config l s4"])
      (simp add: finish_tile_def s4_def)
qed


lemma after_passes_interventions:
  assumes "after_passes cfg dev gs ls n l0 s0 = Some (l1, s1)"
  shows "numHostIntervention l1 = numHostIntervention l0 + of_nat n"
  using assms
proof (induction n arbitrary: l0 s0)
  case 0
  then show ?case by simp
next
  case (Suc n)
  from Suc.prems obtain l s where
    p: "path_iteration_pass cfg dev gs ls l0 s0 = Inr (Next_pass, l, s)"
    and a: "after_passes cfg dev gs ls n l s = Some (l1, s1)"
    by (auto split: sum.splits control.splits)
  from path_iteration_pass_budget [OF p]
  have "numHostIntervention l = numHostIntervention l0 + 1" by simp
  then show ?case using Suc.IH [OF a] by simp
qed

lemma budget_invariant_increment:
  assumes "budget_invariant cfg s"
  shows "0 < unat (PATH_ITER_INC_FACTOR cfg)"
  using assms unfolding budget_invariant_def
  by (cases "unat (PATH_ITER_INC_FACTOR cfg)") auto

lemma loaded_busy_kernels: "kernels (loaded (busy_for N)) name = Some name"
  by (cases name) (simp_all add: run_eval busy_for_def)

lemma loaded_busy:
  "\<forall>name. kernels (loaded (busy_for N)) name = Some name"
  "first_tile (loaded (busy_for N))"
  "path_iteration_times (loaded (busy_for N)) = 2"
  "syncs (world (loaded (busy_for N))) = 0"
  using loaded_busy_kernels by (simp_all add: run_eval busy_for_def)

lemma busy_first_tile:
  "\<exists>s'. trace_small_tile (busy_for N) (loaded (busy_for N)) =
           Some (Inr (True,
             \<lparr>canceled = False, numHostIntervention = of_nat N,
              numNextPathIterTimes = 2 + of_nat N * 2\<rparr>, s')) \<and>
         (\<forall>name. kernels s' name = Some name) \<and> length (ray_state s') = 2 \<and>
         N < syncs (world s') \<and> \<not> first_tile s' \<and>
         path_iteration_times s' =
           next_path_iteration_times small_config
             \<lparr>canceled = False, numHostIntervention = of_nat N,
              numNextPathIterTimes = 2 + of_nat N * 2\<rparr>"
  using busy_tile [of "loaded (busy_for N)" N] loaded_busy [of N] by simp

lemma busy_second_tile:
  "\<exists>b s'. b = next_path_iteration_times small_config
               \<lparr>canceled = False, numHostIntervention = of_nat N,
                numNextPathIterTimes = 2 + of_nat N * 2\<rparr> \<and>
          two_small_tiles (busy_for N) =
            Some (Inr (True,
              \<lparr>canceled = False, numHostIntervention = 0, numNextPathIterTimes = b\<rparr>, s')) \<and>
          path_iteration_times s' =
            next_path_iteration_times small_config
              \<lparr>canceled = False, numHostIntervention = 0, numNextPathIterTimes = b\<rparr> \<and>
          \<not> first_tile s'"
proof -
  from busy_first_tile [of N] obtain s1 where
    t1: "trace_small_tile (busy_for N) (loaded (busy_for N)) =
           Some (Inr (True,
             \<lparr>canceled = False, numHostIntervention = of_nat N,
              numNextPathIterTimes = 2 + of_nat N * 2\<rparr>, s1))"
    and s1: "\<forall>name. kernels s1 name = Some name" "length (ray_state s1) = 2"
      "N < syncs (world s1)"
      "path_iteration_times s1 =
         next_path_iteration_times small_config
           \<lparr>canceled = False, numHostIntervention = of_nat N,
            numNextPathIterTimes = 2 + of_nat N * 2\<rparr>"
    by blast
  have z: "N - syncs (world s1) = 0" using s1(3) by simp
  from busy_tile [of s1 N] s1(1,2) obtain s2 where
    t2: "trace_small_tile (busy_for N) s1 =
           Some (Inr (True,
             \<lparr>canceled = False, numHostIntervention = 0,
              numNextPathIterTimes = path_iteration_times s1\<rparr>, s2))"
    and s2: "\<not> first_tile s2"
      "path_iteration_times s2 =
         next_path_iteration_times small_config
           \<lparr>canceled = False, numHostIntervention = 0,
            numNextPathIterTimes = path_iteration_times s1\<rparr>"
    unfolding z by auto
  have "two_small_tiles (busy_for N) =
          Some (Inr (True,
            \<lparr>canceled = False, numHostIntervention = 0,
             numNextPathIterTimes = path_iteration_times s1\<rparr>, s2))"
    unfolding two_small_tiles_def t1 using t2 by simp
  then show ?thesis using s2 s1(4) by blast
qed

text \<open>
  Claim C1, as stated, fails when the 32-bit counter
  \<^verbatim>\<open>numNextPathIterTimes\<close> wraps around. With the increment 2 and the
  starting budget 2, a tile whose lanes stay active for 2147483647 read-backs
  has 2147483647 host interventions; the claim gives the next budget
  \<open>2 + 2147483647 * 2 = 4294967296\<close>, the code leaves 0.
\<close>

theorem budget_controller_counterexample:
  "path_iteration_times (loaded (busy_for 2147483647)) = 2 \<and>
   PATH_ITER_INC_FACTOR small_config = 2 \<and>
   verdict (trace_small_tile (busy_for 2147483647) (loaded (busy_for 2147483647))) =
     Some (Inr (True,
       \<lparr>canceled = False, numHostIntervention = 2147483647, numNextPathIterTimes = 0\<rparr>,
       0, False)) \<and>
   spec_next_budget 2 2 2147483647 = 4294967296 \<and>
   budget_as_specified small_config (loaded (busy_for 2147483647))
     (trace_small_tile (busy_for 2147483647) (loaded (busy_for 2147483647))) = Some (Inr False)"
proof -
  from busy_first_tile [of 2147483647] obtain s' where
    t: "trace_small_tile (busy_for 2147483647) (loaded (busy_for 2147483647)) =
          Some (Inr (True,
            \<lparr>canceled = False, numHostIntervention = 2147483647, numNextPathIterTimes = 0\<rparr>, s'))"
    and s': "\<not> first_tile s'" "path_iteration_times s' = 0"
    by (auto simp: next_path_iteration_times_def)
  have i: "PATH_ITER_INC_FACTOR small_config = 2" by (simp add: small_config_def)
  show ?thesis
    unfolding t by (simp add: verdict_def budget_as_specified_def spec_next_budget_def
        loaded_busy s' i)
qed

text \<open>
  The budget from the 32-bit counter of host interventions, where nothing
  wraps around.
\<close>

lemma budget_from_counter:
  assumes inv: "budget_invariant cfg s"
    and run: "path_trace cfg dev rtile ms p s = Some (Inr (True, l, s'))"
    and bound: "unat (path_iteration_times s) +
      unat (numHostIntervention l) * unat (PATH_ITER_INC_FACTOR cfg) < 2 ^ 32"
  shows "unat (path_iteration_times s') =
        spec_next_budget (unat (PATH_ITER_INC_FACTOR cfg)) (unat (path_iteration_times s))
          (unat (numHostIntervention l))"
proof -
  have eq: "path_iteration_times s' =
        (if numHostIntervention l = 0
         then (if path_iteration_times s - PATH_ITER_INC_FACTOR cfg \<le> 0
               then PATH_ITER_INC_FACTOR cfg
               else path_iteration_times s - PATH_ITER_INC_FACTOR cfg)
         else path_iteration_times s + numHostIntervention l * PATH_ITER_INC_FACTOR cfg)"
    using path_trace_budget(1,2) [OF run]
    by (simp add: next_path_iteration_times_def)
  show ?thesis
  proof (cases "numHostIntervention l = 0")
    case True
    from inv have i: "0 < unat (path_iteration_times s)"
      "unat (PATH_ITER_INC_FACTOR cfg) dvd unat (path_iteration_times s)"
      by (simp_all add: budget_invariant_def)
    from eq True next_budget_decrease(1) [OF i] show ?thesis
      by (simp add: spec_next_budget_def)
  next
    case False
    then have nz: "unat (numHostIntervention l) \<noteq> 0" by (simp add: unat_eq_0)
    from next_budget_increase [OF bound] eq False nz show ?thesis
      by (simp add: spec_next_budget_def)
  qed
qed

text \<open>
  A loop that is left without a failure went round some number of times and
  then made the pass that left it; that pass adds one to the counter exactly
  when its scan finds an active lane.
\<close>

lemma path_iteration_loop_passes:
  assumes "path_iteration_loop cfg dev gs ls l s = Some (Inr (True, l', s'))"
  shows "\<exists>n l4 s4. after_passes cfg dev gs ls n l s = Some (l4, s4) \<and>
           path_iteration_pass cfg dev gs ls l4 s4 = Inr (Leave_loop, l', s')"
proof -
  define P where "P = (\<lambda>(l :: locals) (s :: ('a, 'b) state)
      (res :: error + bool \<times> locals \<times> ('a, 'b) state).
    \<forall>l' s'. res = Inr (True, l', s') \<longrightarrow>
      (\<exists>n l4 s4. after_passes cfg dev gs ls n l s = Some (l4, s4) \<and>
           path_iteration_pass cfg dev gs ls l4 s4 = Inr (Leave_loop, l', s')))"
  have "P l s (Inr (True, l', s'))"
    using assms
  proof (induction rule: path_iteration_loop_induct)
    case (Error l s e)
    then show ?case by (simp add: P_def)
  next
    case (Return_false l s l' s')
    then show ?case by (simp add: P_def)
  next
    case (Leave_loop l s l' s')
    then show ?case
      unfolding P_def by (intro allI impI exI [of _ 0] exI [of _ l] exI [of _ s]) simp
  next
    case (Next_pass l s l1 s1 res)
    show ?case
      unfolding P_def
    proof (intro allI impI)
      fix l' s'
      assume "res = Inr (True, l', s')"
      with Next_pass(2) obtain n l4 s4 where
        "after_passes cfg dev gs ls n l1 s1 = Some (l4, s4)"
        "path_iteration_pass cfg dev gs ls l4 s4 = Inr (Leave_loop, l', s')"
        unfolding P_def by blast
      then show "\<exists>n l4 s4. after_passes cfg dev gs ls n l s = Some (l4, s4) \<and>
           path_iteration_pass cfg dev gs ls l4 s4 = Inr (Leave_loop, l', s')"
        using Next_pass(1) by (intro exI [of _ "Suc n"] exI [of _ l4] exI [of _ s4]) simp
    qed
  qed
  then show ?thesis by (simp add: P_def)
qed

lemma path_iteration_pass_interventions:
  assumes "path_iteration_pass cfg dev gs ls l s = Inr (c, l', s')" and "c \<noteq> Return_false"
  shows "numHostIntervention l' =
           numHostIntervention l +
           (if active_rays_available cfg ((fst gs * snd gs) mod 2 ^ 64) (ray_state s')
            then 1 else 0)"
proof -
  define n where "n = (fst gs * snd gs) mod 2 ^ 64"
  from path_iteration_pass_synced [OF assms] obtain l1 s1 cp where
    b: "path_iterations dev (path_iteration_kernels gs ls) (unat (path_iteration_times s)) l s
          = Inr (True, l1, s1)"
    and r: "if active_rays_available cfg n (ray_state (copy_ray_state dev n s1))
            then poll_cancel dev
                   ((copy_ray_state dev n s1)\<lparr>path_iteration_times := PATH_ITER_INC_FACTOR cfg\<rparr>)
                   = (cp, s') \<and>
                 l' = l1\<lparr>numHostIntervention := numHostIntervention l1 + 1,
                         numNextPathIterTimes := numNextPathIterTimes l1 + PATH_ITER_INC_FACTOR cfg,
                         canceled := cp \<or> canceled l1\<rparr> \<and>
                 c = (if cp then Leave_loop else Next_pass)
            else poll_cancel dev (copy_ray_state dev n s1) = (cp, s') \<and>
                 l' = l1\<lparr>canceled := cp \<or> canceled l1\<rparr> \<and> c = Leave_loop"
    unfolding n_def by blast
  have l1: "numHostIntervention l1 = numHostIntervention l"
    using path_iterations_True [OF b] by auto
  show ?thesis
  proof (cases "active_rays_available cfg n (ray_state (copy_ray_state dev n s1))")
    case True
    then have "ray_state s' = ray_state (copy_ray_state dev n s1)"
      using r poll_cancel_result(4) [of dev _ cp s'] by auto
    then show ?thesis using True r l1 unfolding n_def by simp
  next
    case False
    then have "ray_state s' = ray_state (copy_ray_state dev n s1)"
      using r poll_cancel_result(4) [of dev _ cp s'] by auto
    then show ?thesis using False r l1 unfolding n_def by simp
  qed
qed

text \<open>
  Claim C1, amended. Every call of \<^verbatim>\<open>path_trace\<close> that returns true
  has gone round its \<^verbatim>\<open>while\<close> loop some number \<open>n\<close> of times and then
  made the pass that left it; its number \<open>k\<close> of host interventions is \<open>n\<close>,
  and one more if the last pass found active lanes. When the starting budget
  is a positive multiple of the increment and the starting budget plus \<open>k\<close>
  times the increment is below \<open>2 ^ 32\<close>, the 32-bit counter of host
  interventions holds \<open>k\<close> and the call leaves the budget of the
  specification: \<open>max increment (budget - increment)\<close> for \<open>k = 0\<close> and
  \<open>budget + k * increment\<close> otherwise.
\<close>

theorem budget_controller:
  "(path_trace cfg dev rtile ms p s = Some (Inr (True, l, s')) \<and>
    compute_work_size cfg rtile ms = Inr ws \<longrightarrow>
      (\<exists>n s_start l_last s_last s_end.
         start_of_tile cfg dev rtile ms p ws s = (True, s_start) \<and>
         after_passes cfg dev (global_size_0 ws, global_size_1 ws)
           (SPLIT_KERNEL_LOCAL_SIZE_X cfg, SPLIT_KERNEL_LOCAL_SIZE_Y cfg) n
           (initial_locals s_start) s_start
           = Some (l_last, s_last) \<and>
         path_iteration_pass cfg dev (global_size_0 ws, global_size_1 ws)
           (SPLIT_KERNEL_LOCAL_SIZE_X cfg, SPLIT_KERNEL_LOCAL_SIZE_Y cfg) l_last s_last
           = Inr (Leave_loop, l, s_end) \<and>
         ray_state s' = ray_state s_end)) \<and>
   (path_trace cfg dev rtile ms p s = Some (Inr (True, l, s')) \<and>
    compute_work_size cfg rtile ms = Inr ws \<and>
    start_of_tile cfg dev rtile ms p ws s = (True, s_start) \<and>
    after_passes cfg dev (global_size_0 ws, global_size_1 ws)
      (SPLIT_KERNEL_LOCAL_SIZE_X cfg, SPLIT_KERNEL_LOCAL_SIZE_Y cfg) n
      (initial_locals s_start) s_start
      = Some (l_last, s_last) \<and>
    path_iteration_pass cfg dev (global_size_0 ws, global_size_1 ws)
      (SPLIT_KERNEL_LOCAL_SIZE_X cfg, SPLIT_KERNEL_LOCAL_SIZE_Y cfg) l_last s_last
      = Inr (Leave_loop, l_end, s_end) \<and>
    k = host_interventions cfg (global_size_0 ws, global_size_1 ws) n s' \<and>
    budget_invariant cfg s \<and>
    unat (path_iteration_times s) + k * unat (PATH_ITER_INC_FACTOR cfg) < 2 ^ 32 \<longrightarrow>
      unat (numHostIntervention l) = k \<and>
      unat (path_iteration_times s') =
        spec_next_budget (unat (PATH_ITER_INC_FACTOR cfg)) (unat (path_iteration_times s)) k)"
proof (intro conjI impI)
  assume a: "path_trace cfg dev rtile ms p s = Some (Inr (True, l, s')) \<and>
    compute_work_size cfg rtile ms = Inr ws"
  then have run: "path_trace cfg dev rtile ms p s = Some (Inr (True, l, s'))"
    and ws: "compute_work_size cfg rtile ms = Inr ws" by simp_all
  from run show "\<exists>n s3 l4 s4 s5.
         start_of_tile cfg dev rtile ms p ws s = (True, s3) \<and>
         after_passes cfg dev (global_size_0 ws, global_size_1 ws)
           (SPLIT_KERNEL_LOCAL_SIZE_X cfg, SPLIT_KERNEL_LOCAL_SIZE_Y cfg) n (initial_locals s3) s3
           = Some (l4, s4) \<and>
         path_iteration_pass cfg dev (global_size_0 ws, global_size_1 ws)
           (SPLIT_KERNEL_LOCAL_SIZE_X cfg, SPLIT_KERNEL_LOCAL_SIZE_Y cfg) l4 s4
           = Inr (Leave_loop, l, s5) \<and>
         ray_state s' = ray_state s5"
  proof (cases rule: path_trace_cases)
    case (Done ws' s2 s3 s4)
    then have w: "ws' = ws" using ws by simp
    have st: "start_of_tile cfg dev rtile ms p ws s = (True, s2)"
      using Done(2) unfolding w start_of_tile_def .
    from path_iteration_loop_passes [OF Done(3)] obtain n l4 s4' where
      "after_passes cfg dev (global_size_0 ws, global_size_1 ws)
           (SPLIT_KERNEL_LOCAL_SIZE_X cfg, SPLIT_KERNEL_LOCAL_SIZE_Y cfg) n (initial_locals s2) s2
           = Some (l4, s4')"
      "path_iteration_pass cfg dev (global_size_0 ws, global_size_1 ws)
           (SPLIT_KERNEL_LOCAL_SIZE_X cfg, SPLIT_KERNEL_LOCAL_SIZE_Y cfg) l4 s4'
           = Inr (Leave_loop, l, s3)"
      unfolding w initial_locals_def by blast
    moreover have "ray_state s' = ray_state s3"
      using sum_all_radiance_result [OF Done(4)] Done(5) by (auto simp: finish_tile_result)
    ultimately show ?thesis using st by blast
  qed simp_all
next
  assume a: "path_trace cfg dev rtile ms p s = Some (Inr (True, l, s')) \<and>
    compute_work_size cfg rtile ms = Inr ws \<and>
    start_of_tile cfg dev rtile ms p ws s = (True, s_start) \<and>
    after_passes cfg dev (global_size_0 ws, global_size_1 ws)
      (SPLIT_KERNEL_LOCAL_SIZE_X cfg, SPLIT_KERNEL_LOCAL_SIZE_Y cfg) n
      (initial_locals s_start) s_start
      = Some (l_last, s_last) \<and>
    path_iteration_pass cfg dev (global_size_0 ws, global_size_1 ws)
      (SPLIT_KERNEL_LOCAL_SIZE_X cfg, SPLIT_KERNEL_LOCAL_SIZE_Y cfg) l_last s_last
      = Inr (Leave_loop, l_end, s_end) \<and>
    k = host_interventions cfg (global_size_0 ws, global_size_1 ws) n s' \<and>
    budget_invariant cfg s \<and>
    unat (path_iteration_times s) + k * unat (PATH_ITER_INC_FACTOR cfg) < 2 ^ 32"
  define gs where "gs = (global_size_0 ws, global_size_1 ws)"
  define ls where "ls = (SPLIT_KERNEL_LOCAL_SIZE_X cfg, SPLIT_KERNEL_LOCAL_SIZE_Y cfg)"
  from a have run: "path_trace cfg dev rtile ms p s = Some (Inr (True, l, s'))" by blast
  from a have ws: "compute_work_size cfg rtile ms = Inr ws" by blast
  from a have st: "start_of_tile cfg dev rtile ms p ws s = (True, s_start)" by blast
  from a have ap: "after_passes cfg dev gs ls n (initial_locals s_start) s_start = Some (l_last, s_last)"
    unfolding gs_def ls_def by blast
  from a have lp: "path_iteration_pass cfg dev gs ls l_last s_last = Inr (Leave_loop, l_end, s_end)"
    unfolding gs_def ls_def by blast
  from a have k: "k = host_interventions cfg gs n s'" unfolding gs_def by blast
  from a have inv: "budget_invariant cfg s" by blast
  from a have bound:
    "unat (path_iteration_times s) + k * unat (PATH_ITER_INC_FACTOR cfg) < 2 ^ 32" by blast
  have loop: "path_iteration_loop cfg dev gs ls (initial_locals s_start) s_start = Some (Inr (True, l_end, s_end))"
    using path_iteration_loop_returns [OF ap lp] by simp
  have "path_trace cfg dev rtile ms p s =
      (case sum_all_radiance dev rtile l_end s_end of
         Inl e \<Rightarrow> Some (Inl e)
       | Inr (ok, s_last) \<Rightarrow>
           if \<not> ok then Some (Inr (False, l_end, s_last))
           else Some (Inr (True, l_end, finish_tile cfg l_end s_last)))"
    using path_trace_unfold [OF ws st] loop unfolding gs_def ls_def by simp
  with run obtain s6 where sr: "sum_all_radiance dev rtile l_end s_end = Inr (True, s6)"
    and l: "l = l_end" and s': "s' = finish_tile cfg l_end s6"
    by (auto split: sum.splits prod.splits if_splits)
  have rs: "ray_state s' = ray_state s_end"
    using sum_all_radiance_result [OF sr] s' by (auto simp: finish_tile_result)
  have "numHostIntervention l_last = of_nat n"
    using after_passes_interventions [OF ap] by (simp add: initial_locals_def)
  moreover have "numHostIntervention l_end =
      numHostIntervention l_last +
      (if active_rays_available cfg ((fst gs * snd gs) mod 2 ^ 64) (ray_state s_end) then 1 else 0)"
    using path_iteration_pass_interventions [OF lp] by simp
  ultimately have c: "numHostIntervention l = of_nat k"
    unfolding k l host_interventions_def rs by simp
  have "0 < unat (PATH_ITER_INC_FACTOR cfg)" using inv by (rule budget_invariant_increment)
  then have "k \<le> k * unat (PATH_ITER_INC_FACTOR cfg)" by simp
  then have "k < 2 ^ 32" using bound by linarith
  then have u: "unat (numHostIntervention l) = k"
    unfolding c by (simp add: unat_of_nat)
  show "unat (numHostIntervention l) = k" by (rule u)
  show "unat (path_iteration_times s') =
        spec_next_budget (unat (PATH_ITER_INC_FACTOR cfg)) (unat (path_iteration_times s)) k"
    using budget_from_counter [OF inv run] bound unfolding u by simp
qed

text \<open>
  The theorem on the run whose lanes stay active for two read-backs: the loop
  goes round twice, the third pass finds no active lane, there are two host
  interventions, and the budget goes from 2 to 6.
\<close>

theorem budget_controller_witness:
  "budget_invariant small_config (loaded busy_script) \<and>
   path_iteration_times (loaded busy_script) = 2 \<and>
   (\<exists>l s' s3 l4 s4 s5.
      trace_small_tile busy_script (loaded busy_script) = Some (Inr (True, l, s')) \<and>
      start_of_tile small_config (scripted_device busy_script) small_tile small_max 4
        \<lparr>global_size_0 = 2, global_size_1 = 1, num_parallel_samples = 1\<rparr> (loaded busy_script)
        = (True, s3) \<and>
      after_passes small_config (scripted_device busy_script) (2, 1) (2, 1) 2
        (initial_locals s3) s3 = Some (l4, s4) \<and>
      path_iteration_pass small_config (scripted_device busy_script) (2, 1) (2, 1) l4 s4
        = Inr (Leave_loop, l, s5) \<and>
      host_interventions small_config (2, 1) 2 s' = 2 \<and>
      numHostIntervention l = 2 \<and> path_iteration_times s' = 6 \<and>
      unat (path_iteration_times s') = spec_next_budget 2 2 2)"
proof -
  have sc: "busy_script = busy_for 2" by (simp add: busy_script_def busy_for_def)
  have inv: "budget_invariant small_config (loaded busy_script)"
    and b: "path_iteration_times (loaded busy_script) = 2"
    by (simp_all add: budget_invariant_def run_eval)
  have i: "PATH_ITER_INC_FACTOR small_config = 2" by (simp add: small_config_def)
  have ws: "compute_work_size small_config small_tile small_max =
              Inr \<lparr>global_size_0 = 2, global_size_1 = 1, num_parallel_samples = 1\<rparr>"
    by (simp add: run_eval)
  have "\<exists>tr. outcome (trace_small_tile busy_script (loaded busy_script)) =
          Some (Inr (True, \<lparr>canceled = False, numHostIntervention = 2, numNextPathIterTimes = 6\<rparr>,
                     6, False, [1, 1], tr))"
    by (simp add: run_eval)
  then obtain s' where run:
    "trace_small_tile busy_script (loaded busy_script) =
       Some (Inr (True, \<lparr>canceled = False, numHostIntervention = 2, numNextPathIterTimes = 6\<rparr>, s'))"
    and p: "path_iteration_times s' = 6" and rs: "ray_state s' = [1, 1]"
    using outcome_Inr by blast
  have k: "host_interventions small_config (2, 1) 2 s' = 2"
    by (simp add: host_interventions_def active_rays_available_def rs small_config_def)
  from busy_start_of_tile [of "loaded (busy_for 2)" 2] loaded_busy [of 2] obtain s3 where
    st: "start_of_tile small_config (scripted_device busy_script) small_tile small_max 4
           \<lparr>global_size_0 = 2, global_size_1 = 1, num_parallel_samples = 1\<rparr> (loaded busy_script)
         = (True, s3)"
    and s3: "\<forall>name. kernels s3 name = Some name" "length (ray_state s3) = 2"
      "syncs (world s3) = 0" "path_iteration_times s3 = 2"
    unfolding sc by auto
  from busy_after_passes [OF s3(1,2), of 2 2 "initial_locals s3"] s3(3) obtain s4 where
    ap: "after_passes small_config (scripted_device busy_script) (2, 1) (2, 1) 2
           (initial_locals s3) s3 =
         Some (\<lparr>canceled = False, numHostIntervention = 2, numNextPathIterTimes = 6\<rparr>, s4)"
    and s4: "\<forall>name. kernels s4 name = Some name" "length (ray_state s4) = 2"
      "syncs (world s4) = 2"
    unfolding sc by (auto simp: initial_locals_def s3(4))
  from busy_pass [OF s4(1,2), of 2
      "\<lparr>canceled = False, numHostIntervention = 2, numNextPathIterTimes = 6\<rparr>"] s4(3)
  obtain s5 where
    lp: "path_iteration_pass small_config (scripted_device busy_script) (2, 1) (2, 1)
           \<lparr>canceled = False, numHostIntervention = 2, numNextPathIterTimes = 6\<rparr> s4 =
         Inr (Leave_loop, \<lparr>canceled = False, numHostIntervention = 2, numNextPathIterTimes = 6\<rparr>, s5)"
    unfolding sc by auto
  note inst = budget_controller
    [where cfg = small_config and dev = "scripted_device busy_script" and rtile = small_tile
       and ms = small_max and p = 4 and s = "loaded busy_script"
       and l = "\<lparr>canceled = False, numHostIntervention = 2, numNextPathIterTimes = 6\<rparr>"
       and s' = s'
       and ws = "\<lparr>global_size_0 = 2, global_size_1 = 1, num_parallel_samples = 1\<rparr>"
       and s_start = s3 and n = 2
       and l_last = "\<lparr>canceled = False, numHostIntervention = 2, numNextPathIterTimes = 6\<rparr>"
       and s_last = s4
       and l_end = "\<lparr>canceled = False, numHostIntervention = 2, numNextPathIterTimes = 6\<rparr>"
       and s_end = s5 and k = 2,
     THEN conjunct2]
  have sz: "SPLIT_KERNEL_LOCAL_SIZE_X small_config = 2" "SPLIT_KERNEL_LOCAL_SIZE_Y small_config = 1"
    by (simp_all add: small_config_def)
  have "unat (path_iteration_times s') = spec_next_budget 2 2 2"
    using inst run ws st ap lp k inv
    unfolding trace_small_tile_def by (simp add: b i sz)
  then show ?thesis using inv b run st ap lp k p by auto
qed

text \<open>
  Claim C10, as stated, fails for the same reason. After construction and
  \<^verbatim>\<open>load_kernels\<close> the budget is 2, a positive multiple of the increment
  2. The tile with 2147483647 host interventions returns true and leaves the
  budget 0. On the next tile, which has no host intervention, the subtraction
  \<open>0 - 2\<close> of line 257 wraps around, and the budget becomes 4294967294.
\<close>

theorem budget_invariant_counterexample:
  "budget_invariant small_config (loaded (busy_for 2147483647)) \<and>
   invariant_after small_config
     (trace_small_tile (busy_for 2147483647) (loaded (busy_for 2147483647))) =
     Some (Inr False) \<and>
   verdict (two_small_tiles (busy_for 2147483647)) =
     Some (Inr (True,
       \<lparr>canceled = False, numHostIntervention = 0, numNextPathIterTimes = 0\<rparr>,
       4294967294, False))"
proof -
  from busy_first_tile [of 2147483647] obtain s1 where
    t: "trace_small_tile (busy_for 2147483647) (loaded (busy_for 2147483647)) =
          Some (Inr (True,
            \<lparr>canceled = False, numHostIntervention = 2147483647, numNextPathIterTimes = 0\<rparr>, s1))"
    and s1: "path_iteration_times s1 = 0"
    by (auto simp: next_path_iteration_times_def)
  from busy_second_tile [of 2147483647] obtain s2 where
    t2: "two_small_tiles (busy_for 2147483647) =
          Some (Inr (True,
            \<lparr>canceled = False, numHostIntervention = 0, numNextPathIterTimes = 0\<rparr>, s2))"
    and s2: "\<not> first_tile s2" "path_iteration_times s2 = 4294967294"
    by (auto simp: next_path_iteration_times_def small_config_def)
  show ?thesis
    unfolding t t2
    by (simp add: verdict_def invariant_after_def budget_invariant_def loaded_busy s1 s2
        small_config_def)
qed

text \<open>
  Claim C10, amended. The constructor leaves the budget equal to the
  increment, a positive multiple of it when the increment is positive, and
  \<^verbatim>\<open>load_kernels\<close> does not change it. While the budget is a positive
  multiple of the increment, it is at least the increment and the subtraction
  of line 257 does not wrap around. A call of \<^verbatim>\<open>path_trace\<close> that
  returns, true or false, from a budget that is a positive multiple of the
  increment, with \<open>k\<close> host interventions such that the budget plus \<open>k\<close> times the
  increment is below \<open>2 ^ 32\<close>, leaves a budget that is a positive multiple of
  the increment; and when it reaches the budget-decrease branch,
  \<^verbatim>\<open>numNextPathIterTimes\<close> is the starting budget, at least the increment.
\<close>

theorem budget_invariant_preserved:
  "(0 < unat (PATH_ITER_INC_FACTOR cfg) \<longrightarrow>
      budget_invariant cfg (DeviceSplitKernel cfg (world s) :: ('w, 'k) state)) \<and>
   (load_kernels dev requested s = (ok, s1) \<longrightarrow>
      path_iteration_times s1 = path_iteration_times s) \<and>
   (budget_invariant cfg s \<longrightarrow>
      PATH_ITER_INC_FACTOR cfg \<le> path_iteration_times s \<and>
      unat (path_iteration_times s - PATH_ITER_INC_FACTOR cfg) =
        unat (path_iteration_times s) - unat (PATH_ITER_INC_FACTOR cfg)) \<and>
   (budget_invariant cfg s \<and>
    path_trace cfg dev rtile ms p (s :: ('w, 'k) state) = Some (Inr (r, l, s')) \<and>
    unat (path_iteration_times s) + unat (numHostIntervention l) * unat (PATH_ITER_INC_FACTOR cfg)
      < 2 ^ 32 \<longrightarrow>
      budget_invariant cfg s' \<and>
      (r \<and> numHostIntervention l = 0 \<longrightarrow>
         numNextPathIterTimes l = path_iteration_times s \<and>
         PATH_ITER_INC_FACTOR cfg \<le> numNextPathIterTimes l))"
proof -
  have c1: "budget_invariant cfg (DeviceSplitKernel cfg (world s) :: ('w, 'k) state)"
    if "0 < unat (PATH_ITER_INC_FACTOR cfg)"
    using that by (simp add: budget_invariant_def DeviceSplitKernel_def)
  have c2: "path_iteration_times s1 = path_iteration_times s"
    if a: "load_kernels dev requested s = (ok, s1)"
  proof -
    obtain ok0 s0 where r: "load_kernel_list dev requested split_kernel_names s = (ok0, s0)"
      by (cases "load_kernel_list dev requested split_kernel_names s")
    have "path_iteration_times s1 = path_iteration_times s0"
      using a r by (cases ok0) (auto simp: load_kernels_def)
    then show ?thesis using load_kernel_list_result [OF r] by simp
  qed
  have c3: "PATH_ITER_INC_FACTOR cfg \<le> path_iteration_times s \<and>
      unat (path_iteration_times s - PATH_ITER_INC_FACTOR cfg) =
        unat (path_iteration_times s) - unat (PATH_ITER_INC_FACTOR cfg)"
    if "budget_invariant cfg s"
    using that next_budget_decrease(2,3) unfolding budget_invariant_def by blast
  have c4: "budget_invariant cfg s' \<and>
      (r \<and> numHostIntervention l = 0 \<longrightarrow>
         numNextPathIterTimes l = path_iteration_times s \<and>
         PATH_ITER_INC_FACTOR cfg \<le> numNextPathIterTimes l)"
    if a: "budget_invariant cfg s \<and>
      path_trace cfg dev rtile ms p s = Some (Inr (r, l, s')) \<and>
      unat (path_iteration_times s) +
      unat (numHostIntervention l) * unat (PATH_ITER_INC_FACTOR cfg) < 2 ^ 32"
  proof -
    from a have inv: "0 < unat (path_iteration_times s)"
      "unat (PATH_ITER_INC_FACTOR cfg) dvd unat (path_iteration_times s)"
      and run: "path_trace cfg dev rtile ms p s = Some (Inr (r, l, s'))"
      and bound: "unat (path_iteration_times s) +
        unat (numHostIntervention l) * unat (PATH_ITER_INC_FACTOR cfg) < 2 ^ 32"
      by (simp_all add: budget_invariant_def)
    have ipos: "0 < unat (PATH_ITER_INC_FACTOR cfg)"
      using a budget_invariant_increment by blast
    note b = path_trace_budget [OF run]
    have "budget_invariant cfg s'"
    proof (cases r)
      case False
      then show ?thesis using b(3) inv ipos by (auto simp: budget_invariant_def)
    next
      case True
      show ?thesis
      proof (cases "numHostIntervention l = 0")
        case k: True
        have n: "numNextPathIterTimes l = path_iteration_times s" using b(1) k by simp
        have e: "path_iteration_times s' =
          (if path_iteration_times s - PATH_ITER_INC_FACTOR cfg \<le> 0
           then PATH_ITER_INC_FACTOR cfg
           else path_iteration_times s - PATH_ITER_INC_FACTOR cfg)"
          using b(2) True unfolding next_path_iteration_times_def n k by simp
        have "unat (path_iteration_times s') =
          max (unat (PATH_ITER_INC_FACTOR cfg))
              (unat (path_iteration_times s) - unat (PATH_ITER_INC_FACTOR cfg))"
          unfolding e by (rule next_budget_decrease(1) [OF inv])
        then show ?thesis
          using inv ipos unfolding budget_invariant_def
          by (auto simp: max_def dvd_diff_nat split: if_splits)
      next
        case k: False
        have "unat (path_iteration_times s') =
           unat (path_iteration_times s) +
           unat (numHostIntervention l) * unat (PATH_ITER_INC_FACTOR cfg)"
          using b(1,2) True k next_budget_increase [OF bound]
          by (simp add: next_path_iteration_times_def)
        then show ?thesis using inv unfolding budget_invariant_def by simp
      qed
    qed
    moreover have "numNextPathIterTimes l = path_iteration_times s \<and>
         PATH_ITER_INC_FACTOR cfg \<le> numNextPathIterTimes l"
      if "r \<and> numHostIntervention l = 0"
      using that b(1) next_budget_decrease(2) [OF inv] by simp
    ultimately show ?thesis by blast
  qed
  from c1 c2 c3 c4 show ?thesis by blast
qed

text \<open>
  The theorem on the run whose lanes are all inactive at the first read-back:
  no host intervention, and the budget, equal to the increment 2, stays 2.
\<close>

theorem budget_invariant_preserved_witness:
  "0 < unat (PATH_ITER_INC_FACTOR small_config) \<and>
   budget_invariant small_config (DeviceSplitKernel small_config no_calls :: (counters, stage) state) \<and>
   budget_invariant small_config (loaded ideal_script) \<and>
   (\<exists>l s'. trace_small_tile ideal_script (loaded ideal_script) = Some (Inr (True, l, s')) \<and>
           numHostIntervention l = 0 \<and> numNextPathIterTimes l = 2 \<and>
           path_iteration_times s' = 2 \<and> budget_invariant small_config s')"
proof -
  have i: "PATH_ITER_INC_FACTOR small_config = 2" by (simp add: small_config_def)
  have inv: "budget_invariant small_config (loaded ideal_script)"
    and b: "path_iteration_times (loaded ideal_script) = 2"
    by (simp_all add: budget_invariant_def run_eval)
  have "\<exists>rs tr. outcome (trace_small_tile ideal_script (loaded ideal_script)) =
          Some (Inr (True, \<lparr>canceled = False, numHostIntervention = 0, numNextPathIterTimes = 2\<rparr>,
                     2, False, rs, tr))"
    by (simp add: run_eval)
  then obtain s' where run:
    "trace_small_tile ideal_script (loaded ideal_script) =
       Some (Inr (True, \<lparr>canceled = False, numHostIntervention = 0, numNextPathIterTimes = 2\<rparr>, s'))"
    and p: "path_iteration_times s' = 2"
    using outcome_Inr by blast
  note inst = budget_invariant_preserved
    [where cfg = small_config and dev = "scripted_device ideal_script" and rtile = small_tile
       and ms = small_max and p = 4 and s = "loaded ideal_script" and r = True
       and l = "\<lparr>canceled = False, numHostIntervention = 0, numNextPathIterTimes = 2\<rparr>"
       and s' = s']
  from inst run inv have "budget_invariant small_config s'"
    unfolding trace_small_tile_def by (simp add: b i)
  moreover from inst have
    "budget_invariant small_config
       (DeviceSplitKernel small_config (world (loaded ideal_script)) :: (counters, stage) state)"
    by (simp add: i)
  then have "budget_invariant small_config
       (DeviceSplitKernel small_config no_calls :: (counters, stage) state)"
    by (simp add: budget_invariant_def DeviceSplitKernel_def)
  ultimately show ?thesis using inv run p by (auto simp: i)
qed

end
